theory Spec2Isabelle
  imports Main "HOL-Library.Word"
begin

section \<open>The channel multiplexer of c7a/net/channel_multiplexer.hpp\<close>

subsection \<open>Integer types\<close>

text \<open>
  \<^verbatim>\<open>ChannelId\<close> is \<^verbatim>\<open>c7a::data::ChainId\<close>, an unsigned integer type declared in
  \<^verbatim>\<open>c7a/data/buffer_chain_manager.hpp\<close>. Its width is not fixed by the multiplexer, so it is
  the type parameter \<open>'w\<close> of \<open>'w word\<close>. The channel registry \<^verbatim>\<open>std::map<int, ChannelPtr>\<close>,
  \<^verbatim>\<open>CloseLoopbackStream(int id)\<close> and \<^verbatim>\<open>GetOrCreateChannel(int id)\<close> use \<^verbatim>\<open>int\<close>, a 32-bit
  two's complement integer. C++ converts between the two implicitly at every call that
  crosses them; both conversions are written out.
\<close>

type_synonym c_int = "32 word"

text \<open>Unsigned to \<^verbatim>\<open>int\<close>: the low 32 bits (zero-extended when the source is narrower).\<close>

definition int_of_ChannelId :: "'w::len word \<Rightarrow> c_int" where
  "int_of_ChannelId i = ucast i"

text \<open>\<^verbatim>\<open>int\<close> to unsigned: the value modulo \<open>2 ^ w\<close>, that is, sign extension.\<close>

definition ChannelId_of_int :: "c_int \<Rightarrow> 'w::len word" where
  "ChannelId_of_int k = scast k"

subsection \<open>Collaborators\<close>

text \<open>
  The multiplexer is the only class in the verified file. The classes it uses are declared
  in other headers of the repository; each is modelled from the spec, as far as the
  multiplexer looks at it.
\<close>

type_synonym Buffer = "8 word list"

type_synonym BufferChain = "Buffer list"

text \<open>
  What a call can end in instead of returning: a failed \<^verbatim>\<open>assert\<close>, or the dereference of
  a null pointer.
\<close>

datatype error = AssertionFailed | NullPointerDereference

text \<open>
  Modelled from the spec: \<^verbatim>\<open>StreamBlockHeader\<close> (declared with \<^verbatim>\<open>Channel\<close>, outside the
  verified file). A frame header is a channel id and a payload byte length, where length 0
  is the end-of-stream sentinel.
\<close>

record 'id StreamBlockHeader =
  expected_bytes :: nat
  channel_id :: 'id

text \<open>
  The layout of the header on the wire is a parameter: the sizes of the two fields, which
  \<^verbatim>\<open>ExpectHeaderFrom\<close> adds up with \<^verbatim>\<open>sizeof\<close>, and \<^verbatim>\<open>StreamBlockHeader::ParseHeader\<close>.
\<close>

record 'id HeaderLayout =
  sizeof_expected_bytes :: nat
  sizeof_channel_id :: nat
  ParseHeader :: "Buffer \<Rightarrow> 'id StreamBlockHeader"

text \<open>
  Modelled from the spec: \<^verbatim>\<open>NetConnection\<close> (\<^verbatim>\<open>c7a/net/net_group.hpp\<close>), a connection
  handle. The multiplexer only passes it on, so it is a name.
\<close>

datatype NetConnection = NetConnection nat

text \<open>
  Modelled from the spec: \<^verbatim>\<open>NetGroup\<close> (\<^verbatim>\<open>c7a/net/net_group.hpp\<close>), a fixed ordered list of
  peer connections \<open>0..N-1\<close>, one index being the caller's own rank, which are up until the
  group is closed.
\<close>

record NetGroup =
  connections :: "NetConnection list"
  my_rank :: nat
  connected :: bool

text \<open>Modelled from the spec: \<^verbatim>\<open>NetGroup::Size()\<close>, the number \<open>N\<close> of peers, self included.\<close>

definition Size :: "NetGroup \<Rightarrow> nat" where
  "Size g = length (connections g)"

text \<open>Modelled from the spec: \<^verbatim>\<open>NetGroup::MyRank()\<close>, the caller's own index.\<close>

definition MyRank :: "NetGroup \<Rightarrow> nat" where
  "MyRank g = my_rank g"

text \<open>
  Modelled from the spec: \<^verbatim>\<open>NetGroup::Connection(index)\<close>, the connection handle of a peer.
  The multiplexer calls it only inside its loops, with an index below \<^verbatim>\<open>Size()\<close>.
\<close>

definition Connection :: "NetGroup \<Rightarrow> nat \<Rightarrow> NetConnection" where
  "Connection g i = connections g ! i"

text \<open>Modelled from the spec: \<^verbatim>\<open>NetGroup::Close()\<close>, which tears down all peer connections.\<close>

definition NetGroup_Close :: "NetGroup \<Rightarrow> NetGroup" where
  "NetGroup_Close g = g\<lparr>connected := False\<rparr>"

text \<open>
  Modelled from the spec: the callbacks that the reactor \<^verbatim>\<open>NetDispatcher\<close>
  (\<^verbatim>\<open>c7a/net/net_dispatcher.hpp\<close>) is given. Each is a bound member function: the
  multiplexer's \<^verbatim>\<open>ReadFirstHeaderPartFrom\<close>, or the continuation with which the channel
  under a registry key receives the payload it asked for.
\<close>

datatype AsyncCallback = ReadFirstHeaderPartFrom_callback | Channel_payload_callback c_int

text \<open>
  Modelled from the spec: a read that is armed at the reactor and not yet completed, with
  the connection, the byte count and the callback of \<^verbatim>\<open>AsyncRead\<close>.
\<close>

record AsyncRead =
  read_connection :: NetConnection
  read_size :: nat
  read_callback :: AsyncCallback

type_synonym NetDispatcher = "AsyncRead list"

text \<open>
  Modelled from the spec: \<^verbatim>\<open>NetDispatcher::AsyncRead(connection, byte_count, on_complete)\<close>,
  which schedules exactly one future invocation of the callback once \<open>byte_count\<close> bytes are
  available: the read joins the armed reads.
\<close>

definition AsyncRead :: "NetDispatcher \<Rightarrow> NetConnection \<Rightarrow> nat \<Rightarrow> AsyncCallback \<Rightarrow> NetDispatcher" where
  "AsyncRead d s n cb = d @ [\<lparr>read_connection = s, read_size = n, read_callback = cb\<rparr>]"

text \<open>
  Modelled from the spec: \<^verbatim>\<open>data::BufferChainManager\<close>
  (\<^verbatim>\<open>c7a/data/buffer_chain_manager.hpp\<close>), the buffer-chain store: a mapping from an id to
  its chain, and the monotonic counter of the allocator. The counter has the id type.
\<close>

record 'id BufferChainManager =
  next_id :: 'id
  chains :: "'id \<rightharpoonup> BufferChain"

text \<open>
  Modelled from the spec: the store of a new multiplexer, with no chain. The spec does not
  say where the counter starts; it is taken to start at 0.
\<close>

definition BufferChainManager_new :: "'w::len word BufferChainManager" where
  "BufferChainManager_new = \<lparr>next_id = 0, chains = Map.empty\<rparr>"

text \<open>Modelled from the spec: \<^verbatim>\<open>BufferChainManager::Contains\<close>, the existence check.\<close>

definition Contains :: "'id BufferChainManager \<Rightarrow> 'id \<Rightarrow> bool" where
  "Contains st i = (chains st i \<noteq> None)"

text \<open>
  Modelled from the spec: \<^verbatim>\<open>BufferChainManager::Chain\<close>, the handle of the chain of an id. It
  creates no new state, and the handle is absent when the id has no chain. A handle refers
  to the chain by its id.
\<close>

definition Chain :: "'id BufferChainManager \<Rightarrow> 'id \<Rightarrow> 'id option" where
  "Chain st i = (if Contains st i then Some i else None)"

text \<open>
  Modelled from the spec: \<^verbatim>\<open>BufferChainManager::Allocate\<close>, which creates the chain of a
  given id. The multiplexer calls it only for an id that has no chain.
\<close>

definition Allocate :: "'id BufferChainManager \<Rightarrow> 'id \<Rightarrow> 'id BufferChainManager" where
  "Allocate st i = st\<lparr>chains := (chains st)(i \<mapsto> [])\<rparr>"

text \<open>
  Modelled from the spec: \<^verbatim>\<open>BufferChainManager::AllocateNext\<close>, which returns a fresh id from
  the monotonic counter, without collision checking, and eagerly creates its chain. A chain
  is created on the first allocation request or the first received header for the id and
  is never removed, so a chain that a header has created already stays as it is. The
  increment of the counter wraps around at the largest id.
\<close>

definition BufferChainManager_AllocateNext ::
    "'w::len word BufferChainManager \<Rightarrow> 'w word \<times> 'w word BufferChainManager" where
  "BufferChainManager_AllocateNext st =
     (next_id st,
      (if Contains st (next_id st) then st else Allocate st (next_id st))
        \<lparr>next_id := next_id st + 1\<rparr>)"

text \<open>
  Modelled from the spec: appending a received buffer to the chain behind a handle, in
  arrival order; no handle, no effect.
\<close>

definition Append :: "'id BufferChainManager \<Rightarrow> 'id option \<Rightarrow> Buffer \<Rightarrow> 'id BufferChainManager" where
  "Append st h b =
     (case h of
        None \<Rightarrow> st
      | Some i \<Rightarrow> (case chains st i of
                     None \<Rightarrow> st
                   | Some c \<Rightarrow> st\<lparr>chains := (chains st)(i \<mapsto> c @ [b])\<rparr>))"

text \<open>
  Modelled from the spec: the state of a \<^verbatim>\<open>Channel\<close> (\<^verbatim>\<open>c7a/net/channel.hpp\<close>): its id, the
  number of peers it expects, the completions it has received and its target chain. The
  constructor call in \<^verbatim>\<open>GetOrCreateChannel\<close> gives it the \<^verbatim>\<open>int\<close> id, the size of the group
  and the handle of the chain.
\<close>

record 'id Channel =
  chan_id :: c_int
  expected_peer_count :: nat
  completions_received :: nat
  target_chain :: "'id option"

text \<open>
  The closer that \<^verbatim>\<open>OpenChannel\<close> builds with \<^verbatim>\<open>std::bind\<close>: \<^verbatim>\<open>CloseLoopbackStream\<close>, bound to
  the multiplexer and the id.
\<close>

datatype 'id Closer = CloseLoopbackStream_bound 'id

text \<open>
  Modelled from the spec: the delivery targets \<^verbatim>\<open>data::LoopbackTarget\<close> and
  \<^verbatim>\<open>data::SocketTarget\<close>, with the arguments that \<^verbatim>\<open>OpenChannel\<close> constructs them from: the
  handle of the chain and the closer, or the connection and the id. The reactor, which the
  socket target is also given, is the one reactor of the multiplexer.
\<close>

datatype 'id Target = LoopbackTarget "'id option" "'id Closer" | SocketTarget NetConnection 'id

text \<open>Modelled from the spec: \<^verbatim>\<open>data::BlockEmitter\<close>, which wraps one target.\<close>

datatype 'id BlockEmitter = BlockEmitter "'id Target"

text \<open>
  Modelled from the spec: what a write to a network target puts on the wire, and where: the
  payload, framed with a header that carries the id and the payload length.
\<close>

definition SocketTarget_Write ::
    "NetConnection \<Rightarrow> 'id \<Rightarrow> Buffer \<Rightarrow> NetConnection \<times> 'id StreamBlockHeader \<times> Buffer" where
  "SocketTarget_Write s i payload =
     (s, \<lparr>expected_bytes = length payload, channel_id = i\<rparr>, payload)"

text \<open>
  Modelled from the spec: what closing a network target puts on the wire: the sentinel
  header of length 0, with no payload.
\<close>

definition SocketTarget_Close ::
    "NetConnection \<Rightarrow> 'id \<Rightarrow> NetConnection \<times> 'id StreamBlockHeader \<times> Buffer" where
  "SocketTarget_Close s i = (s, \<lparr>expected_bytes = 0, channel_id = i\<rparr>, [])"

subsection \<open>The multiplexer\<close>

text \<open>
  The members \<^verbatim>\<open>channels_\<close>, \<^verbatim>\<open>chains_\<close>, \<^verbatim>\<open>group_\<close> and \<^verbatim>\<open>dispatcher_\<close> of the class; a
  name cannot end in an underscore here, so each carries the prefix \<open>mux\<close> instead.
\<close>

record 'id ChannelMultiplexer =
  mux_channels :: "c_int \<rightharpoonup> 'id Channel"
  mux_chains :: "'id BufferChainManager"
  mux_group :: "NetGroup option"
  mux_dispatcher :: NetDispatcher

text \<open>The constructor: no group, the given reactor, an empty registry and a new store.\<close>

definition ChannelMultiplexer_new :: "NetDispatcher \<Rightarrow> 'w::len word ChannelMultiplexer" where
  "ChannelMultiplexer_new dispatcher =
     \<lparr>mux_channels = Map.empty, mux_chains = BufferChainManager_new, mux_group = None,
      mux_dispatcher = dispatcher\<rparr>"

definition ExpectHeaderFrom ::
    "'id HeaderLayout \<Rightarrow> NetConnection \<Rightarrow> 'id ChannelMultiplexer \<Rightarrow> 'id ChannelMultiplexer" where
  "ExpectHeaderFrom L s m =
     (let expected_size = sizeof_expected_bytes L + sizeof_channel_id L;
          callback = ReadFirstHeaderPartFrom_callback
      in m\<lparr>mux_dispatcher := AsyncRead (mux_dispatcher m) s expected_size callback\<rparr>)"

text \<open>The loop of \<^verbatim>\<open>Connect\<close> over the peer indices \<open>0, ..., Size - 1\<close>.\<close>

primrec Connect_loop ::
    "'id HeaderLayout \<Rightarrow> NetGroup \<Rightarrow> nat list \<Rightarrow> 'id ChannelMultiplexer \<Rightarrow> 'id ChannelMultiplexer" where
  "Connect_loop L g [] m = m"
| "Connect_loop L g (i # rest) m =
     Connect_loop L g rest (if i = MyRank g then m else ExpectHeaderFrom L (Connection g i) m)"

text \<open>
  \<^verbatim>\<open>Connect\<close> takes a shared pointer, which may be null; the loop then dereferences it.
\<close>

definition Connect ::
    "'id HeaderLayout \<Rightarrow> NetGroup option \<Rightarrow> 'id ChannelMultiplexer \<Rightarrow> error + 'id ChannelMultiplexer" where
  "Connect L s m =
     (case s of
        None \<Rightarrow> Inl NullPointerDereference
      | Some g \<Rightarrow> Inr (Connect_loop L g [0..<Size g] (m\<lparr>mux_group := s\<rparr>)))"

definition HasChannel :: "'w::len word ChannelMultiplexer \<Rightarrow> 'w word \<Rightarrow> bool" where
  "HasChannel m i = (mux_channels m (int_of_ChannelId i) \<noteq> None)"

definition HasDataOn :: "'id ChannelMultiplexer \<Rightarrow> 'id \<Rightarrow> bool" where
  "HasDataOn m i = Contains (mux_chains m) i"

text \<open>The handle of the chain, and the chain behind it as the caller can read it.\<close>

definition AccessData :: "'id ChannelMultiplexer \<Rightarrow> 'id \<Rightarrow> ('id \<times> BufferChain) option" where
  "AccessData m i =
     (case Chain (mux_chains m) i of
        None \<Rightarrow> None
      | Some h \<Rightarrow> map_option (\<lambda>c. (h, c)) (chains (mux_chains m) h))"

definition AllocateNext ::
    "'w::len word ChannelMultiplexer \<Rightarrow> 'w word \<times> 'w word ChannelMultiplexer" where
  "AllocateNext m =
     (case BufferChainManager_AllocateNext (mux_chains m) of
        (i, st) \<Rightarrow> (i, m\<lparr>mux_chains := st\<rparr>))"

text \<open>The loop of \<^verbatim>\<open>OpenChannel\<close>: one emitter per worker, appended in rank order.\<close>

primrec OpenChannel_loop ::
    "'id ChannelMultiplexer \<Rightarrow> NetGroup \<Rightarrow> 'id \<Rightarrow> nat list \<Rightarrow> 'id BlockEmitter list
       \<Rightarrow> 'id BlockEmitter list" where
  "OpenChannel_loop m g i [] result = result"
| "OpenChannel_loop m g i (worker_id # rest) result =
     OpenChannel_loop m g i rest
       (if worker_id = MyRank g
        then (let closer = CloseLoopbackStream_bound i;
                  target = LoopbackTarget (Chain (mux_chains m) i) closer
              in result @ [BlockEmitter target])
        else (let target = SocketTarget (Connection g worker_id) i
              in result @ [BlockEmitter target]))"

definition OpenChannel ::
    "'id ChannelMultiplexer \<Rightarrow> 'id \<Rightarrow> error + ('id BlockEmitter list \<times> 'id ChannelMultiplexer)" where
  "OpenChannel m i =
     (case mux_group m of
        None \<Rightarrow> Inl AssertionFailed
      | Some g \<Rightarrow> Inr (OpenChannel_loop m g i [0..<Size g] [], m))"

definition Close :: "'id ChannelMultiplexer \<Rightarrow> error + 'id ChannelMultiplexer" where
  "Close m =
     (case mux_group m of
        None \<Rightarrow> Inl NullPointerDereference
      | Some g \<Rightarrow> Inr (m\<lparr>mux_group := Some (NetGroup_Close g)\<rparr>))"

text \<open>\<^verbatim>\<open>std::map::insert\<close> keeps the entry that is already there.\<close>

definition map_insert :: "('k \<rightharpoonup> 'v) \<Rightarrow> 'k \<Rightarrow> 'v \<Rightarrow> ('k \<rightharpoonup> 'v)" where
  "map_insert t k v = (if t k = None then t(k \<mapsto> v) else t)"

text \<open>
  \<^verbatim>\<open>GetOrCreateChannel(int id)\<close>. \<^verbatim>\<open>HasChannel\<close> and the store take a \<^verbatim>\<open>ChannelId\<close>, so the
  \<^verbatim>\<open>int\<close> is converted on the way in; the channel and the registry entry take the \<^verbatim>\<open>int\<close>.
  The group pointer is dereferenced after the chain has been allocated. The shared pointer
  that is returned is the registry key under which the channel is stored: both callers
  pass a key that came from a \<^verbatim>\<open>ChannelId\<close>, for which \<^verbatim>\<open>HasChannel\<close> answers about this very
  key, so that \<^verbatim>\<open>insert\<close> finds the key free and \<^verbatim>\<open>operator[]\<close> finds the entry.
\<close>

definition GetOrCreateChannel ::
    "c_int \<Rightarrow> 'w::len word ChannelMultiplexer \<Rightarrow> error + (c_int \<times> 'w word ChannelMultiplexer)" where
  "GetOrCreateChannel k m =
     (if \<not> HasChannel m (ChannelId_of_int k)
      then (let m1 = (if \<not> Contains (mux_chains m) (ChannelId_of_int k)
                      then m\<lparr>mux_chains := Allocate (mux_chains m) (ChannelId_of_int k)\<rparr>
                      else m);
                targetChain = Chain (mux_chains m1) (ChannelId_of_int k)
            in case mux_group m1 of
                 None \<Rightarrow> Inl NullPointerDereference
               | Some g \<Rightarrow>
                   (let expected_peers = Size g;
                        channel = \<lparr>chan_id = k, expected_peer_count = expected_peers,
                                   completions_received = 0, target_chain = targetChain\<rparr>
                    in Inr (k, m1\<lparr>mux_channels := map_insert (mux_channels m1) k channel\<rparr>)))
      else Inr (k, m))"

text \<open>
  Modelled from the spec: \<^verbatim>\<open>Channel::PickupStream\<close>, on the channel stored under a registry
  key. With a payload length above 0 it issues a read of exactly that many bytes from the
  connection; with length 0 it counts one completion and re-arms the header read on the
  same connection at once. There is no check of the header in it. Calling it through a
  pointer to no channel is a null dereference.
\<close>

definition PickupStream ::
    "'id HeaderLayout \<Rightarrow> c_int \<Rightarrow> NetConnection \<Rightarrow> 'id StreamBlockHeader
       \<Rightarrow> 'id ChannelMultiplexer \<Rightarrow> error + 'id ChannelMultiplexer" where
  "PickupStream L p s header m =
     (case mux_channels m p of
        None \<Rightarrow> Inl NullPointerDereference
      | Some ch \<Rightarrow>
          if expected_bytes header > 0
          then Inr (m\<lparr>mux_dispatcher :=
                       AsyncRead (mux_dispatcher m) s (expected_bytes header) (Channel_payload_callback p)\<rparr>)
          else Inr (ExpectHeaderFrom L s
                      (m\<lparr>mux_channels := (mux_channels m)
                            (p \<mapsto> ch\<lparr>completions_received := completions_received ch + 1\<rparr>)\<rparr>)))"

text \<open>
  Modelled from the spec: the completion of the payload read of \<^verbatim>\<open>PickupStream\<close>, which
  appends the buffer to the target chain and then re-arms the header read on the same
  connection.
\<close>

definition ReadPayload ::
    "'id HeaderLayout \<Rightarrow> c_int \<Rightarrow> NetConnection \<Rightarrow> Buffer
       \<Rightarrow> 'id ChannelMultiplexer \<Rightarrow> error + 'id ChannelMultiplexer" where
  "ReadPayload L p s buffer m =
     (case mux_channels m p of
        None \<Rightarrow> Inl NullPointerDereference
      | Some ch \<Rightarrow>
          Inr (ExpectHeaderFrom L s (m\<lparr>mux_chains := Append (mux_chains m) (target_chain ch) buffer\<rparr>)))"

text \<open>
  Modelled from the spec: \<^verbatim>\<open>Channel::CloseLoopback\<close>, which counts one completion as an
  end-of-stream sentinel does and re-arms nothing.
\<close>

definition CloseLoopback :: "c_int \<Rightarrow> 'id ChannelMultiplexer \<Rightarrow> error + 'id ChannelMultiplexer" where
  "CloseLoopback p m =
     (case mux_channels m p of
        None \<Rightarrow> Inl NullPointerDereference
      | Some ch \<Rightarrow>
          Inr (m\<lparr>mux_channels := (mux_channels m)
                    (p \<mapsto> ch\<lparr>completions_received := completions_received ch + 1\<rparr>)\<rparr>))"

definition CloseLoopbackStream ::
    "c_int \<Rightarrow> 'w::len word ChannelMultiplexer \<Rightarrow> error + 'w word ChannelMultiplexer" where
  "CloseLoopbackStream k m =
     (case GetOrCreateChannel k m of
        Inl e \<Rightarrow> Inl e
      | Inr (channel, m') \<Rightarrow> CloseLoopback channel m')"

text \<open>Invoking the closer of a loopback target: the bound id becomes the \<^verbatim>\<open>int\<close> argument.\<close>

fun invoke_closer ::
    "'w::len word Closer \<Rightarrow> 'w word ChannelMultiplexer \<Rightarrow> error + 'w word ChannelMultiplexer" where
  "invoke_closer (CloseLoopbackStream_bound i) m = CloseLoopbackStream (int_of_ChannelId i) m"

definition ReadFirstHeaderPartFrom ::
    "'w::len word HeaderLayout \<Rightarrow> NetConnection \<Rightarrow> Buffer
       \<Rightarrow> 'w word ChannelMultiplexer \<Rightarrow> error + 'w word ChannelMultiplexer" where
  "ReadFirstHeaderPartFrom L s buffer m =
     (let header = ParseHeader L buffer;
          i = channel_id header
      in case GetOrCreateChannel (int_of_ChannelId i) m of
           Inl e \<Rightarrow> Inl e
         | Inr (channel, m') \<Rightarrow> PickupStream L channel s header m')"

subsection \<open>The reactor's completions and runs of the multiplexer\<close>

text \<open>
  Modelled from the spec: the reactor completes an armed read. The \<open>n\<close>-th pending read
  is taken off the list once a buffer of the size it asked for is there, and its callback
  is invoked with the connection and the buffer. Nothing happens when there is no such read.
\<close>

definition Dispatch ::
    "'w::len word HeaderLayout \<Rightarrow> nat \<Rightarrow> Buffer
       \<Rightarrow> 'w word ChannelMultiplexer \<Rightarrow> error + 'w word ChannelMultiplexer" where
  "Dispatch L n buffer m =
     (let d = mux_dispatcher m
      in if n < length d \<and> length buffer = read_size (d ! n)
         then (let m1 = m\<lparr>mux_dispatcher := take n d @ drop (Suc n) d\<rparr>
               in case read_callback (d ! n) of
                    ReadFirstHeaderPartFrom_callback \<Rightarrow>
                      ReadFirstHeaderPartFrom L (read_connection (d ! n)) buffer m1
                  | Channel_payload_callback p \<Rightarrow>
                      ReadPayload L p (read_connection (d ! n)) buffer m1)
         else Inr m)"

text \<open>
  What can happen to a multiplexer: a call of one of its public member functions, the
  completion of an armed read, or a producer closing the loopback emitter of an id.
\<close>

datatype 'id Operation =
    Call_Connect "NetGroup option"
  | Call_AllocateNext
  | Call_OpenChannel 'id
  | Call_Close
  | Read_completed nat Buffer
  | Loopback_closed 'id

fun step ::
    "'w::len word HeaderLayout \<Rightarrow> 'w word Operation
       \<Rightarrow> 'w word ChannelMultiplexer \<Rightarrow> error + 'w word ChannelMultiplexer" where
  "step L (Call_Connect s) m = Connect L s m"
| "step L Call_AllocateNext m = Inr (snd (AllocateNext m))"
| "step L (Call_OpenChannel i) m = map_sum id snd (OpenChannel m i)"
| "step L Call_Close m = Close m"
| "step L (Read_completed n buffer) m = Dispatch L n buffer m"
| "step L (Loopback_closed i) m = invoke_closer (CloseLoopbackStream_bound i) m"

fun run ::
    "'w::len word HeaderLayout \<Rightarrow> 'w word Operation list
       \<Rightarrow> 'w word ChannelMultiplexer \<Rightarrow> error + 'w word ChannelMultiplexer" where
  "run L [] m = Inr m"
| "run L (x # xs) m = (case step L x m of Inl e \<Rightarrow> Inl e | Inr m' \<Rightarrow> run L xs m')"

text \<open>The ids an operation names: a call's argument, or the id in a header that arrives.\<close>

fun named_ids :: "'w::len word HeaderLayout \<Rightarrow> 'w word Operation \<Rightarrow> 'w word list" where
  "named_ids L (Call_OpenChannel i) = [i]"
| "named_ids L (Loopback_closed i) = [i]"
| "named_ids L (Read_completed n buffer) = [channel_id (ParseHeader L buffer)]"
| "named_ids L _ = []"

subsection \<open>A concrete header layout and concrete groups\<close>

text \<open>
  The examples run on 64-bit ids with the wire format of the spec: the payload length, then
  the channel id, each 8 bytes, little-endian.
\<close>

definition le_decode :: "Buffer \<Rightarrow> nat" where
  "le_decode bs = foldr (\<lambda>b n. unat b + 256 * n) bs 0"

definition layout64 :: "64 word HeaderLayout" where
  "layout64 =
     \<lparr>sizeof_expected_bytes = 8, sizeof_channel_id = 8,
      ParseHeader = (\<lambda>buffer. \<lparr>expected_bytes = le_decode (take 8 buffer),
                                 channel_id = of_nat (le_decode (take 8 (drop 8 buffer)))\<rparr>)\<rparr>"

definition group3 :: NetGroup where
  "group3 = \<lparr>connections = [NetConnection 10, NetConnection 11, NetConnection 12],
              my_rank = 0, connected = True\<rparr>"

text \<open>The read that \<^verbatim>\<open>ExpectHeaderFrom\<close> arms on a connection.\<close>

definition header_read :: "'id HeaderLayout \<Rightarrow> NetConnection \<Rightarrow> AsyncRead" where
  "header_read L s =
     \<lparr>read_connection = s, read_size = sizeof_expected_bytes L + sizeof_channel_id L,
      read_callback = ReadFirstHeaderPartFrom_callback\<rparr>"

text \<open>
  The id under which the store sees an id that went through an \<^verbatim>\<open>int\<close> parameter, and the
  ids that this round trip leaves as they are.
\<close>

definition via_int :: "'w::len word \<Rightarrow> 'w word" where
  "via_int i = ChannelId_of_int (int_of_ChannelId i)"

definition fits_int :: "'w::len word \<Rightarrow> bool" where
  "fits_int i = (via_int i = i)"

text \<open>The multiplexer after \<^verbatim>\<open>Connect\<close> to a group of three, as rank 0.\<close>

definition connected3 :: "64 word ChannelMultiplexer" where
  "connected3 = Connect_loop layout64 group3 [0..<Size group3]
                  ((ChannelMultiplexer_new [])\<lparr>mux_group := Some group3\<rparr>)"

text \<open>Header buffers: (length 0, id 5), (length 0, id 0), (length 9, id \<open>2^32 + 5\<close>),
  (length 9, id \<open>2^32 - 1\<close>) and (length \<open>2^63\<close>, id 7).\<close>

definition header_0_5 :: Buffer where
  "header_0_5 = [0, 0, 0, 0, 0, 0, 0, 0, 5, 0, 0, 0, 0, 0, 0, 0]"

definition header_0_0 :: Buffer where
  "header_0_0 = [0, 0, 0, 0, 0, 0, 0, 0, 0, 0, 0, 0, 0, 0, 0, 0]"

definition header_9_wide :: Buffer where
  "header_9_wide = [9, 0, 0, 0, 0, 0, 0, 0, 5, 0, 0, 0, 1, 0, 0, 0]"

definition header_9_ffffffff :: Buffer where
  "header_9_ffffffff = [9, 0, 0, 0, 0, 0, 0, 0, 255, 255, 255, 255, 0, 0, 0, 0]"


text \<open>The first header that completes on the freshly connected multiplexer.\<close>

definition after_first_header :: "64 word StreamBlockHeader \<Rightarrow> 64 word ChannelMultiplexer" where
  "after_first_header h =
     \<lparr>mux_channels = [int_of_ChannelId (channel_id h) \<mapsto>
          \<lparr>chan_id = int_of_ChannelId (channel_id h), expected_peer_count = Size group3,
           completions_received = (if expected_bytes h > 0 then 0 else 1),
           target_chain = Some (via_int (channel_id h))\<rparr>],
      mux_chains = \<lparr>next_id = 0, chains = [via_int (channel_id h) \<mapsto> []]\<rparr>,
      mux_group = Some group3,
      mux_dispatcher = [header_read layout64 (NetConnection 12),
        if expected_bytes h > 0
        then \<lparr>read_connection = NetConnection 11, read_size = expected_bytes h,
              read_callback = Channel_payload_callback (int_of_ChannelId (channel_id h))\<rparr>
        else header_read layout64 (NetConnection 11)]\<rparr>"

text \<open>The multiplexer after the header (length 0, id 5) completed as the first one.\<close>

definition after_header_0_5 :: "64 word ChannelMultiplexer" where
  "after_header_0_5 = after_first_header \<lparr>expected_bytes = 0, channel_id = 5\<rparr>"

subsection \<open>Predicates on runs\<close>

text \<open>The ids that the calls of \<^verbatim>\<open>AllocateNext\<close> in a run return, in order.\<close>

fun allocated_ids ::
    "'w::len word HeaderLayout \<Rightarrow> 'w word Operation list \<Rightarrow> 'w word ChannelMultiplexer
       \<Rightarrow> 'w word list" where
  "allocated_ids L [] m = []"
| "allocated_ids L (x # xs) m =
     (case step L x m of
        Inl e \<Rightarrow> []
      | Inr m' \<Rightarrow>
          (case x of Call_AllocateNext \<Rightarrow> [fst (AllocateNext m)] | _ \<Rightarrow> [])
          @ allocated_ids L xs m')"

text \<open>
  Every channel of the registry is backed by a chain: the store has the chain of the id to
  which the registry key converts. This is what \<^verbatim>\<open>GetOrCreateChannel\<close> establishes when it
  allocates the chain before it registers the channel.
\<close>

definition registry_backed :: "'w::len word ChannelMultiplexer \<Rightarrow> bool" where
  "registry_backed m =
     (\<forall>k ch. mux_channels m k = Some ch \<longrightarrow> Contains (mux_chains m) (ChannelId_of_int k))"

text \<open>
  Every channel of the registry is the channel of its key: it was constructed with the key
  as its id and with the chain of the id to which the key converts. This is what
  \<^verbatim>\<open>GetOrCreateChannel\<close> constructs, and no operation replaces a channel by another one.
\<close>

definition registry_tied :: "'w::len word ChannelMultiplexer \<Rightarrow> bool" where
  "registry_tied m =
     (\<forall>k ch. mux_channels m k = Some ch \<longrightarrow>
        chan_id ch = k \<and> target_chain ch = Some (ChannelId_of_int k))"

text \<open>
  The registry has keys only of the ids in \<open>N\<close>, and the store has chains only of those
  ids, as they come out of an \<^verbatim>\<open>int\<close>, and of the ids in \<open>A\<close>.
\<close>

definition known_ids ::
    "'w::len word ChannelMultiplexer \<Rightarrow> 'w word set \<Rightarrow> 'w word set \<Rightarrow> bool" where
  "known_ids m N A =
     ((\<forall>k. mux_channels m k \<noteq> None \<longrightarrow> k \<in> int_of_ChannelId ` N)
      \<and> (\<forall>j. Contains (mux_chains m) j \<longrightarrow> j \<in> via_int ` N \<union> A))"

section \<open>Properties\<close>

subsection \<open>Conversions and evaluation\<close>


lemma int_round_trip:
  "int_of_ChannelId (ChannelId_of_int (int_of_ChannelId i) :: 'w::len word) = int_of_ChannelId (i :: 'w word)"
  unfolding int_of_ChannelId_def ChannelId_of_int_def
proof (rule bit_word_eqI)
  fix n :: nat
  assume "n < LENGTH(32)"
  then have "n = 31 \<or> n < 31" by simp arith
  then show "bit (ucast (scast (ucast i :: 32 word) :: 'w word) :: 32 word) n = bit (ucast i :: 32 word) n"
    by (auto simp: bit_ucast_iff bit_signed_iff min_def not_le dest: bit_imp_le_length)
qed

lemma int_of_via_int [simp]: "int_of_ChannelId (via_int i) = int_of_ChannelId i"
  by (simp add: via_int_def int_round_trip)

lemma HasChannel_via_int [simp]: "HasChannel m (via_int i) = HasChannel m i"
  by (simp add: HasChannel_def)

lemma ExpectHeaderFrom_eq:
  "ExpectHeaderFrom L s m = m\<lparr>mux_dispatcher := mux_dispatcher m @ [header_read L s]\<rparr>"
  by (simp add: ExpectHeaderFrom_def AsyncRead_def header_read_def)

lemma GetOrCreateChannel_found:
  "HasChannel m i \<Longrightarrow> GetOrCreateChannel (int_of_ChannelId i) m = Inr (int_of_ChannelId i, m)"
  by (simp add: GetOrCreateChannel_def via_int_def [symmetric])

lemma GetOrCreateChannel_null:
  "\<not> HasChannel m i \<Longrightarrow> mux_group m = None \<Longrightarrow>
     GetOrCreateChannel (int_of_ChannelId i) m = Inl NullPointerDereference"
  by (simp add: GetOrCreateChannel_def via_int_def [symmetric])

lemma GetOrCreateChannel_created:
  assumes "\<not> HasChannel m i" and "mux_group m = Some g"
  shows "GetOrCreateChannel (int_of_ChannelId i) m =
           Inr (int_of_ChannelId i,
                m\<lparr>mux_chains := (if Contains (mux_chains m) (via_int i) then mux_chains m
                                 else Allocate (mux_chains m) (via_int i)),
                  mux_channels := (mux_channels m)
                    (int_of_ChannelId i \<mapsto>
                       \<lparr>chan_id = int_of_ChannelId i, expected_peer_count = Size g,
                        completions_received = 0, target_chain = Some (via_int i)\<rparr>)\<rparr>)"
proof -
  have none: "mux_channels m (int_of_ChannelId i) = None"
    using assms(1) by (simp add: HasChannel_def)
  show ?thesis
    using assms none
    by (simp add: GetOrCreateChannel_def via_int_def [symmetric] map_insert_def Chain_def
        Contains_def Allocate_def)
qed

lemma Connect_loop_eq:
  "Connect_loop L g js m =
     m\<lparr>mux_dispatcher := mux_dispatcher m
          @ map (\<lambda>i. header_read L (Connection g i)) (filter (\<lambda>i. i \<noteq> MyRank g) js)\<rparr>"
  by (induction js arbitrary: m) (simp_all add: ExpectHeaderFrom_eq)

lemma length_filter_other: "r < n \<Longrightarrow> length (filter (\<lambda>i. i \<noteq> r) [0..<n]) = n - 1"
proof (induction n)
  case 0
  then show ?case by simp
next
  case (Suc n)
  show ?case
  proof (cases "r = n")
    case True
    have "filter (\<lambda>i. i \<noteq> n) [0..<n] = [0..<n]"
      by (rule filter_True) simp
    with True show ?thesis by simp
  next
    case False
    with Suc.prems have "r < n" by simp
    with Suc.IH False show ?thesis by simp
  qed
qed

lemma connected3_eq:
  "connected3 =
     \<lparr>mux_channels = Map.empty, mux_chains = BufferChainManager_new, mux_group = Some group3,
      mux_dispatcher = [header_read layout64 (NetConnection 11), header_read layout64 (NetConnection 12)]\<rparr>"
  by (simp add: connected3_def Connect_loop_eq ChannelMultiplexer_new_def Size_def MyRank_def
      Connection_def group3_def upt_conv_Cons)

lemma Connect_group3: "Connect layout64 (Some group3) (ChannelMultiplexer_new []) = Inr connected3"
  by (simp add: Connect_def connected3_def)

lemma PickupStream_eq:
  "mux_channels m p = Some ch \<Longrightarrow>
   PickupStream L p s h m =
     Inr (if expected_bytes h > 0
          then m\<lparr>mux_dispatcher := mux_dispatcher m
                   @ [\<lparr>read_connection = s, read_size = expected_bytes h,
                        read_callback = Channel_payload_callback p\<rparr>]\<rparr>
          else m\<lparr>mux_channels := (mux_channels m)
                     (p \<mapsto> ch\<lparr>completions_received := completions_received ch + 1\<rparr>),
                  mux_dispatcher := mux_dispatcher m @ [header_read L s]\<rparr>)"
  by (simp add: PickupStream_def ExpectHeaderFrom_eq AsyncRead_def)

text \<open>What the header-read completion does, in the two cases of the registry.\<close>

lemma ReadFirstHeaderPartFrom_found:
  assumes "ParseHeader L buffer = h" and "mux_channels m (int_of_ChannelId (channel_id h)) = Some ch"
  shows "ReadFirstHeaderPartFrom L s buffer m = PickupStream L (int_of_ChannelId (channel_id h)) s h m"
proof -
  have "HasChannel m (channel_id h)"
    using assms(2) by (simp add: HasChannel_def)
  then show ?thesis
    using assms(1) by (simp add: ReadFirstHeaderPartFrom_def GetOrCreateChannel_found)
qed

lemma ReadFirstHeaderPartFrom_created:
  assumes "ParseHeader L buffer = h" and "mux_channels m (int_of_ChannelId (channel_id h)) = None"
    and "mux_group m = Some g"
  shows "ReadFirstHeaderPartFrom L s buffer m =
           PickupStream L (int_of_ChannelId (channel_id h)) s h
             (m\<lparr>mux_chains := (if Contains (mux_chains m) (via_int (channel_id h)) then mux_chains m
                                 else Allocate (mux_chains m) (via_int (channel_id h))),
                mux_channels := (mux_channels m)
                  (int_of_ChannelId (channel_id h) \<mapsto>
                     \<lparr>chan_id = int_of_ChannelId (channel_id h), expected_peer_count = Size g,
                      completions_received = 0, target_chain = Some (via_int (channel_id h))\<rparr>)\<rparr>)"
proof -
  have "\<not> HasChannel m (channel_id h)"
    using assms(2) by (simp add: HasChannel_def)
  then show ?thesis
    using assms(1,3) by (simp add: ReadFirstHeaderPartFrom_def GetOrCreateChannel_created)
qed

lemma parse_header_0_5:
  "ParseHeader layout64 header_0_5 = \<lparr>expected_bytes = 0, channel_id = 5\<rparr>"
  by (simp add: layout64_def header_0_5_def le_decode_def)

lemma parse_header_0_0:
  "ParseHeader layout64 header_0_0 = \<lparr>expected_bytes = 0, channel_id = 0\<rparr>"
  by (simp add: layout64_def header_0_0_def le_decode_def)

lemma parse_header_9_wide:
  "ParseHeader layout64 header_9_wide = \<lparr>expected_bytes = 9, channel_id = 4294967301\<rparr>"
  by (simp add: layout64_def header_9_wide_def le_decode_def)

lemma parse_header_9_ffffffff:
  "ParseHeader layout64 header_9_ffffffff = \<lparr>expected_bytes = 9, channel_id = 4294967295\<rparr>"
  by (simp add: layout64_def header_9_ffffffff_def le_decode_def)


lemma wide_ids:
  "int_of_ChannelId (4294967301 :: 64 word) = 5"
  "int_of_ChannelId (5 :: 64 word) = 5"
  "int_of_ChannelId (0 :: 64 word) = 0"
  "int_of_ChannelId (7 :: 64 word) = 7"
  "int_of_ChannelId (4294967295 :: 64 word) = 4294967295"
  "int_of_ChannelId (18446744073709551615 :: 64 word) = 4294967295"
  "via_int (4294967301 :: 64 word) = 5"
  "via_int (5 :: 64 word) = 5"
  "via_int (0 :: 64 word) = 0"
  "via_int (7 :: 64 word) = 7"
  "via_int (4294967295 :: 64 word) = 18446744073709551615"
  by (simp_all add: via_int_def int_of_ChannelId_def ChannelId_of_int_def)

subsection \<open>Ids wider than int\<close>

text \<open>
  With ids of 64 bits, as \<^verbatim>\<open>size_t\<close> has them, the \<^verbatim>\<open>int\<close> keys of the registry and the
  \<^verbatim>\<open>int\<close> parameters of \<^verbatim>\<open>GetOrCreateChannel\<close> and \<^verbatim>\<open>CloseLoopbackStream\<close> cut an id to its
  low 32 bits, and the way back to the store extends the sign. The three theorems of this
  subsection run the multiplexer on such ids.
\<close>

text \<open>
  Claim C1, at a failing input. With 64-bit ids, a header for the id \<open>2^32 + 5\<close> completes on
  a connection of the freshly connected multiplexer. The id reaches \<^verbatim>\<open>GetOrCreateChannel\<close>
  as the \<^verbatim>\<open>int\<close> 5: the chain that is created is the one of id 5, and the id of the header
  has no chain afterwards.
\<close>

theorem header_with_wide_id_creates_another_chain:
  "\<exists>m'. Connect layout64 (Some group3) (ChannelMultiplexer_new []) = Inr connected3
        \<and> channel_id (ParseHeader layout64 header_9_wide) = 4294967301
        \<and> ReadFirstHeaderPartFrom layout64 (NetConnection 11) header_9_wide connected3 = Inr m'
        \<and> HasChannel m' 4294967301
        \<and> \<not> HasDataOn m' 4294967301
        \<and> HasDataOn m' 5 \<and> \<not> HasDataOn connected3 5"
  by (simp add: Connect_group3 parse_header_9_wide
      ReadFirstHeaderPartFrom_created [OF parse_header_9_wide, where g = group3]
      PickupStream_eq wide_ids connected3_eq HasChannel_def HasDataOn_def Contains_def Allocate_def
      BufferChainManager_new_def)

lemma run_single: "run L [x] m = step L x m"
  by (cases "step L x m") simp_all

lemma run_Cons_Inr: "step L x m = Inr m' \<Longrightarrow> run L (x # xs) m = run L xs m'"
  by simp

lemma Dispatch_header_read:
  assumes "n < length (mux_dispatcher m)" and "mux_dispatcher m ! n = header_read L s"
    and "length buffer = sizeof_expected_bytes L + sizeof_channel_id L"
  shows "Dispatch L n buffer m =
           ReadFirstHeaderPartFrom L s buffer
             (m\<lparr>mux_dispatcher := take n (mux_dispatcher m) @ drop (Suc n) (mux_dispatcher m)\<rparr>)"
  using assms by (simp add: Dispatch_def header_read_def Let_def)

lemma first_header_on_connected3:
  assumes "ParseHeader layout64 buffer = h"
  shows "ReadFirstHeaderPartFrom layout64 (NetConnection 11) buffer
           (connected3\<lparr>mux_dispatcher := [header_read layout64 (NetConnection 12)]\<rparr>)
         = Inr (after_first_header h)"
proof -
  let ?m = "connected3\<lparr>mux_dispatcher := [header_read layout64 (NetConnection 12)]\<rparr>"
  have none: "mux_channels ?m (int_of_ChannelId (channel_id h)) = None"
    by (simp add: connected3_eq)
  have grp: "mux_group ?m = Some group3"
    by (simp add: connected3_eq)
  show ?thesis
    unfolding ReadFirstHeaderPartFrom_created [OF assms none grp]
    by (simp add: PickupStream_eq after_first_header_def connected3_eq Contains_def Allocate_def
        BufferChainManager_new_def)
qed

lemma Dispatch_connected3:
  assumes "length buffer = 16" and "ParseHeader layout64 buffer = h"
  shows "Dispatch layout64 0 buffer connected3 = Inr (after_first_header h)"
proof -
  have "Dispatch layout64 0 buffer connected3 =
          ReadFirstHeaderPartFrom layout64 (NetConnection 11) buffer
            (connected3\<lparr>mux_dispatcher := take 0 (mux_dispatcher connected3)
                                              @ drop (Suc 0) (mux_dispatcher connected3)\<rparr>)"
    by (rule Dispatch_header_read) (simp_all add: connected3_eq assms layout64_def)
  also have "take 0 (mux_dispatcher connected3) @ drop (Suc 0) (mux_dispatcher connected3)
               = [header_read layout64 (NetConnection 12)]"
    by (simp add: connected3_eq)
  finally show ?thesis
    by (simp add: first_header_on_connected3 [OF assms(2)])
qed

lemma run_connect_then_header:
  assumes "length buffer = 16" and "ParseHeader layout64 buffer = h"
  shows "run layout64 [Call_Connect (Some group3), Read_completed 0 buffer]
           (ChannelMultiplexer_new []) = Inr (after_first_header h)"
  by (simp add: Connect_group3 Dispatch_connected3 [OF assms])

text \<open>
  Claim C8, at a failing input. With 64-bit ids, after a header for the id 5 has completed,
  \<^verbatim>\<open>HasChannel\<close> is true of the id \<open>2^32 + 5\<close>, which the registry cannot tell from 5, and
  \<^verbatim>\<open>HasDataOn\<close> is false of it.
\<close>

theorem channel_without_chain_for_wide_id:
  "\<exists>m. run layout64 [Call_Connect (Some group3), Read_completed 0 header_0_5]
            (ChannelMultiplexer_new []) = Inr m
       \<and> HasChannel m 4294967301 \<and> \<not> HasDataOn m 4294967301"
proof -
  have len: "length header_0_5 = 16" by (simp add: header_0_5_def)
  show ?thesis
    unfolding run_connect_then_header [OF len parse_header_0_5]
    by (simp add: after_first_header_def wide_ids HasChannel_def HasDataOn_def Contains_def)
qed

text \<open>
  Claim C6, at a failing input. With 64-bit ids, the run allocates no id, and the only id
  that it names is \<open>2^32 - 1\<close>, in a header. It becomes the \<^verbatim>\<open>int\<close> \<open>-1\<close> and from there the id
  \<open>2^64 - 1\<close> of the store: both queries are true of \<open>2^64 - 1\<close>, which was never allocated,
  opened or named by a header, and \<^verbatim>\<open>HasDataOn\<close> is false of the id that the header named.
\<close>

theorem unnamed_id_has_channel_and_data:
  "\<exists>m. run layout64 [Call_Connect (Some group3), Read_completed 0 header_9_ffffffff]
            (ChannelMultiplexer_new []) = Inr m
       \<and> 18446744073709551615 \<notin> set (concat (map (named_ids layout64)
             [Call_Connect (Some group3), Read_completed 0 header_9_ffffffff]))
       \<and> allocated_ids layout64 [Call_Connect (Some group3), Read_completed 0 header_9_ffffffff]
             (ChannelMultiplexer_new []) = []
       \<and> HasChannel m 18446744073709551615 \<and> HasDataOn m 18446744073709551615
       \<and> \<not> HasDataOn m 4294967295"
proof -
  have len: "length header_9_ffffffff = 16" by (simp add: header_9_ffffffff_def)
  have none: "allocated_ids layout64 [Call_Connect (Some group3), Read_completed 0 header_9_ffffffff]
             (ChannelMultiplexer_new []) = []"
    by (simp add: Connect_group3 Dispatch_connected3 [OF len parse_header_9_ffffffff])
  show ?thesis
    unfolding run_connect_then_header [OF len parse_header_9_ffffffff] none
    by (simp add: after_first_header_def wide_ids HasChannel_def HasDataOn_def Contains_def
        parse_header_9_ffffffff)
qed

subsection \<open>Connect\<close>

text \<open>
  Claim C2. \<^verbatim>\<open>Connect\<close> to a group whose own rank is one of its indices arms, for every
  peer index other than the own rank and in index order, one read of the size of one frame
  header (the two \<^verbatim>\<open>sizeof\<close> added up) on that peer's connection, with
  \<^verbatim>\<open>ReadFirstHeaderPartFrom\<close> as callback, and none for the own rank: the reactor holds
  \<open>Size - 1\<close> reads more than before. It keeps the group and returns nothing else: the
  registry and the store are as before.
\<close>

theorem Connect_arms_one_header_read_per_peer:
  assumes "MyRank g < Size g"
  shows "\<exists>m'. Connect L (Some g) m = Inr m'
          \<and> mux_dispatcher m' = mux_dispatcher m
               @ map (\<lambda>i. header_read L (Connection g i)) (filter (\<lambda>i. i \<noteq> MyRank g) [0..<Size g])
          \<and> length (mux_dispatcher m') = length (mux_dispatcher m) + (Size g - 1)
          \<and> mux_group m' = Some g
          \<and> mux_channels m' = mux_channels m
          \<and> mux_chains m' = mux_chains m"
  using assms by (simp add: Connect_def Connect_loop_eq length_filter_other)

theorem Connect_arms_one_header_read_per_peer_witness:
  "MyRank group3 < Size group3
   \<and> (\<exists>m'. Connect layout64 (Some group3) (ChannelMultiplexer_new []) = Inr m'
        \<and> mux_dispatcher m' = mux_dispatcher (ChannelMultiplexer_new [] :: 64 word ChannelMultiplexer)
             @ map (\<lambda>i. header_read layout64 (Connection group3 i))
                 (filter (\<lambda>i. i \<noteq> MyRank group3) [0..<Size group3])
        \<and> length (mux_dispatcher m')
            = length (mux_dispatcher (ChannelMultiplexer_new [] :: 64 word ChannelMultiplexer))
              + (Size group3 - 1)
        \<and> mux_group m' = Some group3)"
proof -
  have r: "MyRank group3 < Size group3"
    by (simp add: MyRank_def Size_def group3_def)
  from Connect_arms_one_header_read_per_peer [OF r, of layout64 "ChannelMultiplexer_new []"] r
  show ?thesis by blast
qed

subsection \<open>Close\<close>

text \<open>
  Claim C5. \<^verbatim>\<open>Close\<close> on a multiplexer that has a group closes the group, whose connections
  are torn down, and nothing else: the channel registry and the buffer-chain store are the
  same, so \<^verbatim>\<open>HasChannel\<close>, \<^verbatim>\<open>HasDataOn\<close> and \<^verbatim>\<open>AccessData\<close> answer for every id as they did
  before.
\<close>

theorem Close_leaves_registry_and_store:
  assumes "mux_group m = Some g"
  shows "\<exists>m'. Close m = Inr m'
          \<and> (\<forall>i. HasChannel m' i = HasChannel m i
                 \<and> HasDataOn m' i = HasDataOn m i
                 \<and> AccessData m' i = AccessData m i)
          \<and> mux_channels m' = mux_channels m
          \<and> mux_chains m' = mux_chains m
          \<and> mux_group m' = Some (NetGroup_Close g)
          \<and> \<not> connected (NetGroup_Close g)"
  using assms
  by (simp add: Close_def HasChannel_def HasDataOn_def AccessData_def NetGroup_Close_def
      split: option.splits)

theorem Close_leaves_registry_and_store_witness:
  "mux_group (after_first_header \<lparr>expected_bytes = 0, channel_id = 5\<rparr>) = Some group3
   \<and> (\<exists>m'. Close (after_first_header \<lparr>expected_bytes = 0, channel_id = 5\<rparr>) = Inr m'
        \<and> HasChannel m' 5 \<and> HasDataOn m' 5
        \<and> AccessData m' 5 = Some (5, [])
        \<and> mux_group m' = Some (NetGroup_Close group3))"
proof -
  let ?m = "after_first_header \<lparr>expected_bytes = 0, channel_id = 5\<rparr>"
  have g: "mux_group ?m = Some group3"
    by (simp add: after_first_header_def)
  have before: "HasChannel ?m 5 \<and> HasDataOn ?m 5 \<and> AccessData ?m 5 = Some (5, [])"
    by (simp add: after_first_header_def wide_ids HasChannel_def HasDataOn_def AccessData_def
        Contains_def Chain_def)
  from Close_leaves_registry_and_store [OF g] obtain m' where
    "Close ?m = Inr m'"
    "\<forall>i. HasChannel m' i = HasChannel ?m i \<and> HasDataOn m' i = HasDataOn ?m i
          \<and> AccessData m' i = AccessData ?m i"
    "mux_group m' = Some (NetGroup_Close group3)"
    by blast
  with g before show ?thesis by auto
qed

subsection \<open>OpenChannel\<close>

lemma OpenChannel_loop_eq:
  "OpenChannel_loop m g i js acc =
     acc @ map (\<lambda>worker_id.
                  if worker_id = MyRank g
                  then BlockEmitter (LoopbackTarget (Chain (mux_chains m) i) (CloseLoopbackStream_bound i))
                  else BlockEmitter (SocketTarget (Connection g worker_id) i)) js"
  by (induction js arbitrary: acc) simp_all

lemma CloseLoopback_eq:
  "mux_channels m p = Some ch \<Longrightarrow>
   CloseLoopback p m =
     Inr (m\<lparr>mux_channels := (mux_channels m)
              (p \<mapsto> ch\<lparr>completions_received := completions_received ch + 1\<rparr>)\<rparr>)"
  by (simp add: CloseLoopback_def)

text \<open>
  The closer of the loopback target, on a multiplexer that has a group: the channel of the id
  is there afterwards, with one completion more than before (one, when it is created).
\<close>

lemma invoke_closer_effect:
  assumes "mux_group m = Some g"
  shows "\<exists>m' ch. invoke_closer (CloseLoopbackStream_bound i) m = Inr m'
           \<and> mux_channels m' (int_of_ChannelId i) = Some ch
           \<and> HasChannel m' i
           \<and> completions_received ch =
               (case mux_channels m (int_of_ChannelId i) of
                  None \<Rightarrow> 0 | Some c \<Rightarrow> completions_received c) + 1
           \<and> expected_peer_count ch =
               (case mux_channels m (int_of_ChannelId i) of
                  None \<Rightarrow> Size g | Some c \<Rightarrow> expected_peer_count c)"
proof (cases "mux_channels m (int_of_ChannelId i)")
  case None
  then have "\<not> HasChannel m i" by (simp add: HasChannel_def)
  then show ?thesis
    using assms None
    by (simp add: CloseLoopbackStream_def GetOrCreateChannel_created CloseLoopback_eq HasChannel_def)
next
  case (Some c)
  then have "HasChannel m i" by (simp add: HasChannel_def)
  then show ?thesis
    using Some
    by (simp add: CloseLoopbackStream_def GetOrCreateChannel_found CloseLoopback_eq HasChannel_def)
qed

text \<open>
  The shape of the result of \<^verbatim>\<open>OpenChannel\<close> on a multiplexer that has a group: one emitter
  per rank, in rank order. At the own rank it is a loopback target that holds the handle of
  the id's chain as the store returns it (the chain itself when there is one) and a closer;
  invoking the closer is \<^verbatim>\<open>CloseLoopbackStream\<close>, that is \<^verbatim>\<open>GetOrCreateChannel\<close> followed by
  \<^verbatim>\<open>CloseLoopback\<close> of the channel it returns, which is the channel under the registry key
  to which the id converts and has one completion more afterwards. Whether that channel is
  the channel of the id is the subject of the subsection on the closer of the loopback
  target below. At every other rank the emitter is a socket target on that rank's connection
  with the id, whose writes are framed by a header with the id and the length of the
  payload.
\<close>

theorem OpenChannel_targets:
  assumes "mux_group m = Some g"
  shows "\<exists>emitters. OpenChannel m i = Inr (emitters, m)
          \<and> length emitters = Size g
          \<and> (\<forall>rank < Size g. emitters ! rank =
                (if rank = MyRank g
                 then BlockEmitter (LoopbackTarget (Chain (mux_chains m) i) (CloseLoopbackStream_bound i))
                 else BlockEmitter (SocketTarget (Connection g rank) i)))
          \<and> (HasDataOn m i \<longrightarrow> Chain (mux_chains m) i = Some i)
          \<and> (\<forall>m0. invoke_closer (CloseLoopbackStream_bound i) m0 =
                (case GetOrCreateChannel (int_of_ChannelId i) m0 of
                   Inl e \<Rightarrow> Inl e
                 | Inr (channel, m1) \<Rightarrow> CloseLoopback channel m1))
          \<and> (\<forall>m0 g0. mux_group m0 = Some g0 \<longrightarrow>
                (\<exists>m1 ch. invoke_closer (CloseLoopbackStream_bound i) m0 = Inr m1
                   \<and> HasChannel m1 i
                   \<and> mux_channels m1 (int_of_ChannelId i) = Some ch
                   \<and> completions_received ch =
                       (case mux_channels m0 (int_of_ChannelId i) of
                          None \<Rightarrow> 0 | Some c \<Rightarrow> completions_received c) + 1))
          \<and> (\<forall>rank payload. SocketTarget_Write (Connection g rank) i payload =
                (Connection g rank, \<lparr>expected_bytes = length payload, channel_id = i\<rparr>, payload))"
proof -
  have closer: "\<forall>m0 g0. mux_group m0 = Some g0 \<longrightarrow>
                (\<exists>m1 ch. invoke_closer (CloseLoopbackStream_bound i) m0 = Inr m1
                   \<and> HasChannel m1 i
                   \<and> mux_channels m1 (int_of_ChannelId i) = Some ch
                   \<and> completions_received ch =
                       (case mux_channels m0 (int_of_ChannelId i) of
                          None \<Rightarrow> 0 | Some c \<Rightarrow> completions_received c) + 1)"
    using invoke_closer_effect by blast
  have loop: "OpenChannel m i = Inr (OpenChannel_loop m g i [0..<Size g] [], m)"
    using assms by (simp add: OpenChannel_def)
  have len: "length (OpenChannel_loop m g i [0..<Size g] []) = Size g"
    by (simp add: OpenChannel_loop_eq)
  have nth: "\<forall>rank < Size g. OpenChannel_loop m g i [0..<Size g] [] ! rank =
                (if rank = MyRank g
                 then BlockEmitter (LoopbackTarget (Chain (mux_chains m) i) (CloseLoopbackStream_bound i))
                 else BlockEmitter (SocketTarget (Connection g rank) i))"
    by (simp add: OpenChannel_loop_eq)
  have chain: "HasDataOn m i \<longrightarrow> Chain (mux_chains m) i = Some i"
    by (simp add: HasDataOn_def Chain_def)
  have inv: "\<forall>m0. invoke_closer (CloseLoopbackStream_bound i) m0 =
                (case GetOrCreateChannel (int_of_ChannelId i) m0 of
                   Inl e \<Rightarrow> Inl e
                 | Inr (channel, m1) \<Rightarrow> CloseLoopback channel m1)"
    by (simp add: CloseLoopbackStream_def)
  have wr: "\<forall>rank payload. SocketTarget_Write (Connection g rank) i payload =
                (Connection g rank, \<lparr>expected_bytes = length payload, channel_id = i\<rparr>, payload)"
    by (simp add: SocketTarget_Write_def)
  from loop len nth chain inv closer wr show ?thesis by blast
qed

theorem OpenChannel_targets_witness:
  "mux_group connected3 = Some group3
   \<and> (\<exists>emitters. OpenChannel connected3 7 = Inr (emitters, connected3)
        \<and> length emitters = Size group3
        \<and> emitters ! 0 = BlockEmitter (LoopbackTarget None (CloseLoopbackStream_bound 7))
        \<and> emitters ! 2 = BlockEmitter (SocketTarget (NetConnection 12) 7)
        \<and> (\<exists>m1. invoke_closer (CloseLoopbackStream_bound 7) connected3 = Inr m1 \<and> HasChannel m1 7))"
proof -
  have g: "mux_group connected3 = Some group3"
    by (simp add: connected3_eq)
  have s: "Size group3 = 3" "MyRank group3 = 0" "Connection group3 2 = NetConnection 12"
    "Chain (mux_chains connected3) 7 = None"
    by (simp_all add: Size_def MyRank_def Connection_def group3_def connected3_eq Chain_def
        Contains_def BufferChainManager_new_def)
  from OpenChannel_targets [OF g, of 7] obtain emitters where
    e: "OpenChannel connected3 7 = Inr (emitters, connected3)" "length emitters = Size group3"
      "\<forall>rank < Size group3. emitters ! rank =
          (if rank = MyRank group3
           then BlockEmitter (LoopbackTarget (Chain (mux_chains connected3) 7) (CloseLoopbackStream_bound 7))
           else BlockEmitter (SocketTarget (Connection group3 rank) 7))"
      "\<forall>(m0 :: 64 word ChannelMultiplexer) g0. mux_group m0 = Some g0 \<longrightarrow>
          (\<exists>m1 ch. invoke_closer (CloseLoopbackStream_bound 7) m0 = Inr m1
             \<and> HasChannel m1 7
             \<and> mux_channels m1 (int_of_ChannelId (7 :: 64 word)) = Some ch
             \<and> completions_received ch =
                 (case mux_channels m0 (int_of_ChannelId (7 :: 64 word)) of
                    None \<Rightarrow> 0 | Some c \<Rightarrow> completions_received c) + 1)"
    by (elim exE conjE) (rule that, assumption+)
  from e(3) s have "emitters ! 0 = BlockEmitter (LoopbackTarget None (CloseLoopbackStream_bound 7))"
    and "emitters ! 2 = BlockEmitter (SocketTarget (NetConnection 12) 7)"
    by simp_all
  moreover from e(4) g
  have "\<exists>m1. invoke_closer (CloseLoopbackStream_bound 7) connected3 = Inr m1 \<and> HasChannel m1 7"
    by blast
  ultimately show ?thesis using g e(1,2) by blast
qed

subsection \<open>The completion of a header read\<close>

lemma ReadFirstHeaderPartFrom_effect:
  assumes "mux_group m = Some g" and "ParseHeader L buffer = h"
  shows "\<exists>m' ch. ReadFirstHeaderPartFrom L s buffer m = Inr m'
           \<and> mux_group m' = Some g
           \<and> mux_channels m' (int_of_ChannelId (channel_id h)) = Some ch
           \<and> expected_peer_count ch =
               (case mux_channels m (int_of_ChannelId (channel_id h)) of
                  None \<Rightarrow> Size g | Some c \<Rightarrow> expected_peer_count c)
           \<and> completions_received ch =
               (case mux_channels m (int_of_ChannelId (channel_id h)) of
                  None \<Rightarrow> 0 | Some c \<Rightarrow> completions_received c)
               + (if expected_bytes h > 0 then 0 else 1)
           \<and> (mux_channels m (int_of_ChannelId (channel_id h)) = None \<longrightarrow>
                 Contains (mux_chains m') (via_int (channel_id h))
                 \<and> target_chain ch = Some (via_int (channel_id h)))
           \<and> (\<forall>j. Contains (mux_chains m) j \<longrightarrow> Contains (mux_chains m') j)
           \<and> mux_dispatcher m' = mux_dispatcher m
               @ [if expected_bytes h > 0
                  then \<lparr>read_connection = s, read_size = expected_bytes h,
                        read_callback = Channel_payload_callback (int_of_ChannelId (channel_id h))\<rparr>
                  else header_read L s]"
proof (cases "mux_channels m (int_of_ChannelId (channel_id h))")
  case None
  show ?thesis
    unfolding ReadFirstHeaderPartFrom_created [OF assms(2) None assms(1)]
    using None assms(1)
    by (simp add: PickupStream_eq Contains_def Allocate_def)
next
  case (Some c)
  show ?thesis
    unfolding ReadFirstHeaderPartFrom_found [OF assms(2) Some]
    using Some assms(1)
    by (simp add: PickupStream_eq)
qed

text \<open>
  The completion of a header read goes to \<^verbatim>\<open>GetOrCreateChannel\<close> with the id of the header
  and from there to \<^verbatim>\<open>PickupStream\<close> with the connection and the header, in every case.
\<close>

lemma ReadFirstHeaderPartFrom_delegates:
  assumes "mux_group m = Some g" and "ParseHeader L buffer = h"
  shows "\<exists>m1. GetOrCreateChannel (int_of_ChannelId (channel_id h)) m
                 = Inr (int_of_ChannelId (channel_id h), m1)
          \<and> ReadFirstHeaderPartFrom L s buffer m
                 = PickupStream L (int_of_ChannelId (channel_id h)) s h m1"
proof (cases "HasChannel m (channel_id h)")
  case True
  then show ?thesis
    using assms(2) by (simp add: ReadFirstHeaderPartFrom_def GetOrCreateChannel_found)
next
  case False
  then show ?thesis
    using assms by (simp add: ReadFirstHeaderPartFrom_def GetOrCreateChannel_created)
qed






subsection \<open>What every operation keeps\<close>

lemma GetOrCreateChannel_frame:
  assumes "GetOrCreateChannel k m = Inr (p, m')"
  shows "p = k" and "mux_group m' = mux_group m" and "mux_dispatcher m' = mux_dispatcher m"
    and "next_id (mux_chains m') = next_id (mux_chains m)"
  using assms
  by (auto simp: GetOrCreateChannel_def Let_def Allocate_def split: if_splits option.splits)

lemma PickupStream_frame:
  assumes "PickupStream L p s h m = Inr m'"
  shows "mux_group m' = mux_group m" and "mux_chains m' = mux_chains m"
  using assms
  by (auto simp: PickupStream_def ExpectHeaderFrom_eq split: if_splits option.splits)

lemma Append_next_id: "next_id (Append st h b) = next_id st"
  by (simp add: Append_def split: option.splits)

lemma ReadPayload_frame:
  assumes "ReadPayload L p s b m = Inr m'"
  shows "mux_group m' = mux_group m" and "mux_channels m' = mux_channels m"
    and "next_id (mux_chains m') = next_id (mux_chains m)"
  using assms
  by (auto simp: ReadPayload_def ExpectHeaderFrom_eq Append_next_id split: option.splits)

lemma CloseLoopback_frame:
  assumes "CloseLoopback p m = Inr m'"
  shows "mux_group m' = mux_group m" and "mux_chains m' = mux_chains m"
    and "mux_dispatcher m' = mux_dispatcher m"
  using assms
  by (auto simp: CloseLoopback_def split: option.splits)

lemma ReadFirstHeaderPartFrom_frame:
  assumes "ReadFirstHeaderPartFrom L s buffer m = Inr m'"
  shows "mux_group m' = mux_group m" and "next_id (mux_chains m') = next_id (mux_chains m)"
proof -
  from assms obtain p m1 where
    g: "GetOrCreateChannel (int_of_ChannelId (channel_id (ParseHeader L buffer))) m = Inr (p, m1)"
    and pk: "PickupStream L p s (ParseHeader L buffer) m1 = Inr m'"
    by (auto simp: ReadFirstHeaderPartFrom_def Let_def split: sum.splits)
  from GetOrCreateChannel_frame [OF g] PickupStream_frame [OF pk]
  show "mux_group m' = mux_group m" and "next_id (mux_chains m') = next_id (mux_chains m)"
    by simp_all
qed

lemma CloseLoopbackStream_frame:
  assumes "CloseLoopbackStream k m = Inr m'"
  shows "mux_group m' = mux_group m" and "next_id (mux_chains m') = next_id (mux_chains m)"
proof -
  from assms obtain p m1 where
    g: "GetOrCreateChannel k m = Inr (p, m1)" and c: "CloseLoopback p m1 = Inr m'"
    by (auto simp: CloseLoopbackStream_def split: sum.splits)
  from GetOrCreateChannel_frame [OF g] CloseLoopback_frame [OF c]
  show "mux_group m' = mux_group m" and "next_id (mux_chains m') = next_id (mux_chains m)"
    by simp_all
qed

lemma Dispatch_frame:
  assumes "Dispatch L n buffer m = Inr m'"
  shows "mux_group m' = mux_group m" and "next_id (mux_chains m') = next_id (mux_chains m)"
proof -
  let ?d = "mux_dispatcher m"
  let ?m1 = "m\<lparr>mux_dispatcher := take n ?d @ drop (Suc n) ?d\<rparr>"
  have "mux_group m' = mux_group m \<and> next_id (mux_chains m') = next_id (mux_chains m)"
  proof (cases "n < length ?d \<and> length buffer = read_size (?d ! n)")
    case False
    with assms have "m' = m" by (simp add: Dispatch_def Let_def)
    then show ?thesis by simp
  next
    case True
    show ?thesis
    proof (cases "read_callback (?d ! n)")
      case ReadFirstHeaderPartFrom_callback
      with True assms
      have "ReadFirstHeaderPartFrom L (read_connection (?d ! n)) buffer ?m1 = Inr m'"
        by (simp add: Dispatch_def Let_def)
      from ReadFirstHeaderPartFrom_frame [OF this] show ?thesis by simp
    next
      case (Channel_payload_callback p)
      with True assms
      have "ReadPayload L p (read_connection (?d ! n)) buffer ?m1 = Inr m'"
        by (simp add: Dispatch_def Let_def)
      from ReadPayload_frame [OF this] show ?thesis by simp
    qed
  qed
  then show "mux_group m' = mux_group m" and "next_id (mux_chains m') = next_id (mux_chains m)"
    by simp_all
qed

lemma AllocateNext_eq:
  "AllocateNext m =
     (next_id (mux_chains m),
      m\<lparr>mux_chains := (if Contains (mux_chains m) (next_id (mux_chains m)) then mux_chains m
                        else Allocate (mux_chains m) (next_id (mux_chains m)))
                       \<lparr>next_id := next_id (mux_chains m) + 1\<rparr>\<rparr>)"
  by (simp add: AllocateNext_def BufferChainManager_AllocateNext_def)

lemma step_group:
  assumes "step L x m = Inr m'" and "mux_group m \<noteq> None"
  shows "mux_group m' \<noteq> None"
proof (cases x)
  case (Call_Connect s)
  with assms show ?thesis
    by (auto simp: Connect_def Connect_loop_eq split: option.splits)
next
  case Call_AllocateNext
  with assms show ?thesis by (auto simp: AllocateNext_eq)
next
  case (Call_OpenChannel i)
  with assms show ?thesis by (auto simp: OpenChannel_def split: option.splits)
next
  case Call_Close
  with assms show ?thesis by (auto simp: Close_def split: option.splits)
next
  case (Read_completed n buffer)
  with assms Dispatch_frame(1) [of L n buffer m m'] show ?thesis by simp
next
  case (Loopback_closed i)
  with assms CloseLoopbackStream_frame(1) [of "int_of_ChannelId i" m m'] show ?thesis by simp
qed

lemma step_next_id:
  assumes "step L x m = Inr m'" and "x \<noteq> Call_AllocateNext"
  shows "next_id (mux_chains m') = next_id (mux_chains m)"
proof (cases x)
  case (Call_Connect s)
  with assms show ?thesis
    by (auto simp: Connect_def Connect_loop_eq split: option.splits)
next
  case Call_AllocateNext
  with assms show ?thesis by simp
next
  case (Call_OpenChannel i)
  with assms show ?thesis by (auto simp: OpenChannel_def split: option.splits)
next
  case Call_Close
  with assms show ?thesis by (auto simp: Close_def split: option.splits)
next
  case (Read_completed n buffer)
  with assms Dispatch_frame(2) [of L n buffer m m'] show ?thesis by simp
next
  case (Loopback_closed i)
  with assms CloseLoopbackStream_frame(2) [of "int_of_ChannelId i" m m'] show ?thesis by simp
qed

lemma run_group:
  "run L xs m = Inr m' \<Longrightarrow> mux_group m \<noteq> None \<Longrightarrow> mux_group m' \<noteq> None"
proof (induction xs arbitrary: m)
  case Nil
  then show ?case by simp
next
  case (Cons x xs)
  then show ?case
    by (cases "step L x m") (auto dest: step_group)
qed

lemma run_next_id:
  "run L xs m = Inr m' \<Longrightarrow> Call_AllocateNext \<notin> set xs \<Longrightarrow>
     next_id (mux_chains m') = next_id (mux_chains m)"
proof (induction xs arbitrary: m)
  case Nil
  then show ?case by simp
next
  case (Cons x xs)
  show ?case
  proof (cases "step L x m")
    case (Inl e)
    with Cons.prems show ?thesis by simp
  next
    case (Inr m1)
    with Cons.prems have "run L xs m1 = Inr m'" and "Call_AllocateNext \<notin> set xs"
      and "x \<noteq> Call_AllocateNext"
      by auto
    with Cons.IH [of m1] step_next_id [OF Inr] show ?thesis by simp
  qed
qed

text \<open>
  Claim C10. \<^verbatim>\<open>OpenChannel\<close> fails its assertion exactly when the group pointer is null.
  After a \<^verbatim>\<open>Connect\<close> that returned, and whatever operations have run since, the pointer is
  not null and \<^verbatim>\<open>OpenChannel\<close> returns its emitters. \<^verbatim>\<open>Close\<close> has no such guard: on a null
  pointer it dereferences it, and so does the closer of a loopback emitter when it has to
  create the channel. With a group, both return.
\<close>

theorem OpenChannel_asserts_the_group:
  "(OpenChannel m i = Inl AssertionFailed \<longleftrightarrow> mux_group m = None)
   \<and> (\<forall>L s m1 xs m2. Connect L s m = Inr m1 \<longrightarrow> run L xs m1 = Inr m2 \<longrightarrow>
         (\<exists>emitters. OpenChannel m2 i = Inr (emitters, m2)))
   \<and> (mux_group m = None \<longrightarrow> Close m = Inl NullPointerDereference)
   \<and> (mux_group m = None \<longrightarrow> \<not> HasChannel m i \<longrightarrow>
         invoke_closer (CloseLoopbackStream_bound i) m = Inl NullPointerDereference)
   \<and> (mux_group m \<noteq> None \<longrightarrow>
         (\<exists>m'. Close m = Inr m') \<and> (\<exists>m'. invoke_closer (CloseLoopbackStream_bound i) m = Inr m'))"
proof -
  have a: "OpenChannel m i = Inl AssertionFailed \<longleftrightarrow> mux_group m = None"
    by (simp add: OpenChannel_def split: option.splits)
  have b: "\<forall>L s m1 xs m2. Connect L s m = Inr m1 \<longrightarrow> run L xs m1 = Inr m2 \<longrightarrow>
         (\<exists>emitters. OpenChannel m2 i = Inr (emitters, m2))"
  proof (intro allI impI)
    fix L :: "'a word HeaderLayout" and s m1 xs m2
    assume c: "Connect L s m = Inr m1" and r: "run L xs m1 = Inr m2"
    from c have "mux_group m1 \<noteq> None"
      by (auto simp: Connect_def Connect_loop_eq split: option.splits)
    with r have "mux_group m2 \<noteq> None"
      by (rule run_group)
    then show "\<exists>emitters. OpenChannel m2 i = Inr (emitters, m2)"
      by (auto simp: OpenChannel_def)
  qed
  have c: "mux_group m = None \<longrightarrow> Close m = Inl NullPointerDereference"
    by (simp add: Close_def)
  have d: "mux_group m = None \<longrightarrow> \<not> HasChannel m i \<longrightarrow>
         invoke_closer (CloseLoopbackStream_bound i) m = Inl NullPointerDereference"
    by (simp add: CloseLoopbackStream_def GetOrCreateChannel_null)
  have e: "mux_group m \<noteq> None \<longrightarrow>
         (\<exists>m'. Close m = Inr m') \<and> (\<exists>m'. invoke_closer (CloseLoopbackStream_bound i) m = Inr m')"
  proof
    assume "mux_group m \<noteq> None"
    then obtain g where g: "mux_group m = Some g" by auto
    from g have "\<exists>m'. Close m = Inr m'" by (simp add: Close_def)
    moreover from invoke_closer_effect [OF g, of i]
    have "\<exists>m'. invoke_closer (CloseLoopbackStream_bound i) m = Inr m'" by blast
    ultimately show "(\<exists>m'. Close m = Inr m')
        \<and> (\<exists>m'. invoke_closer (CloseLoopbackStream_bound i) m = Inr m')" ..
  qed
  from a b c d e show ?thesis by blast
qed

theorem OpenChannel_asserts_the_group_witness:
  "mux_group (ChannelMultiplexer_new [] :: 64 word ChannelMultiplexer) = None
   \<and> OpenChannel (ChannelMultiplexer_new [] :: 64 word ChannelMultiplexer) 7 = Inl AssertionFailed
   \<and> Close (ChannelMultiplexer_new [] :: 64 word ChannelMultiplexer) = Inl NullPointerDereference
   \<and> \<not> HasChannel (ChannelMultiplexer_new [] :: 64 word ChannelMultiplexer) 7
   \<and> invoke_closer (CloseLoopbackStream_bound 7) (ChannelMultiplexer_new [] :: 64 word ChannelMultiplexer)
       = Inl NullPointerDereference
   \<and> Connect layout64 (Some group3) (ChannelMultiplexer_new []) = Inr connected3
   \<and> (\<exists>m2. run layout64 [Call_AllocateNext, Call_Close] connected3 = Inr m2
        \<and> (\<exists>emitters. OpenChannel m2 7 = Inr (emitters, m2)))
   \<and> mux_group connected3 \<noteq> None
   \<and> (\<exists>m'. Close connected3 = Inr m')
   \<and> (\<exists>m'. invoke_closer (CloseLoopbackStream_bound 7) connected3 = Inr m')"
proof -
  let ?new = "ChannelMultiplexer_new [] :: 64 word ChannelMultiplexer"
  have n: "mux_group ?new = None" "\<not> HasChannel ?new 7"
    by (simp_all add: ChannelMultiplexer_new_def HasChannel_def)
  have c: "Connect layout64 (Some group3) ?new = Inr connected3"
    by (rule Connect_group3)
  have g: "mux_group connected3 \<noteq> None"
    by (simp add: connected3_eq)
  obtain m2 where r: "run layout64 [Call_AllocateNext, Call_Close] connected3 = Inr m2"
    by (simp add: AllocateNext_eq Close_def connected3_eq)
  from OpenChannel_asserts_the_group [of ?new 7] n c r
  have "OpenChannel ?new 7 = Inl AssertionFailed"
    and "Close ?new = Inl NullPointerDereference"
    and "invoke_closer (CloseLoopbackStream_bound 7) ?new = Inl NullPointerDereference"
    and "\<exists>emitters. OpenChannel m2 7 = Inr (emitters, m2)"
    by blast+
  moreover from OpenChannel_asserts_the_group [of connected3 7] g
  have "(\<exists>m'. Close connected3 = Inr m')
        \<and> (\<exists>m'. invoke_closer (CloseLoopbackStream_bound 7) connected3 = Inr m')"
    by blast
  ultimately show ?thesis using n c g r by blast
qed

subsection \<open>The ids of a run's allocations\<close>

lemma unat_counter:
  fixes c :: "'w::len word"
  assumes "unat c + n < 2 ^ LENGTH('w)"
  shows "unat (c + of_nat n) = unat c + n"
proof -
  from assms have n: "n < 2 ^ LENGTH('w)" by simp
  then have u: "unat (of_nat n :: 'w word) = n"
    by (simp add: unat_of_nat)
  with assms have "unat c + unat (of_nat n :: 'w word) < 2 ^ LENGTH('w)" by simp
  then have "unat (c + of_nat n) = unat c + unat (of_nat n :: 'w word)"
    by (simp add: unat_add_lem)
  with u show ?thesis by simp
qed

lemma allocated_ids_eq:
  "allocated_ids L xs m =
     map (\<lambda>n. next_id (mux_chains m) + of_nat n) [0..<length (allocated_ids L xs m)]"
proof (induction xs arbitrary: m)
  case Nil
  then show ?case by simp
next
  case (Cons x xs)
  show ?case
  proof (cases "step L x m")
    case (Inl e)
    then show ?thesis by simp
  next
    case (Inr m1)
    show ?thesis
    proof (cases "x = Call_AllocateNext")
      case True
      with Inr have m1: "next_id (mux_chains m1) = next_id (mux_chains m) + 1"
        by (auto simp: AllocateNext_eq)
      let ?c = "next_id (mux_chains m)"
      let ?n = "length (allocated_ids L xs m1)"
      from True Inr have a: "allocated_ids L (x # xs) m = ?c # allocated_ids L xs m1"
        by (simp add: AllocateNext_eq)
      have ih: "allocated_ids L xs m1 = map (\<lambda>n. ?c + 1 + of_nat n) [0..<?n]"
        using Cons.IH [of m1] by (simp add: m1)
      have "[0..<Suc ?n] = 0 # [Suc 0..<Suc ?n]"
        by (rule upt_conv_Cons) simp
      also have "[Suc 0..<Suc ?n] = map Suc [0..<?n]"
        by (rule map_Suc_upt [symmetric])
      finally have "map (\<lambda>n. ?c + of_nat n) [0..<Suc ?n]
                      = map (\<lambda>n. ?c + of_nat n) (0 # map Suc [0..<?n])"
        by (rule arg_cong)
      also have "\<dots> = ?c # map (\<lambda>n. ?c + 1 + of_nat n) [0..<?n]"
        by (simp add: add.assoc)
      also have "\<dots> = ?c # allocated_ids L xs m1"
        using ih by simp
      finally have "?c # allocated_ids L xs m1 = map (\<lambda>n. ?c + of_nat n) [0..<Suc ?n]"
        by (rule sym)
      then show ?thesis
        unfolding a length_Cons .
    next
      case False
      with Inr have "next_id (mux_chains m1) = next_id (mux_chains m)"
        by (simp add: step_next_id)
      moreover from False Inr have "allocated_ids L (x # xs) m = allocated_ids L xs m1"
        by (cases x) simp_all
      ultimately show ?thesis
        using Cons.IH [of m1] by simp
    qed
  qed
qed

text \<open>
  The ids that the allocations of a run return are the values of the counter, one after the
  other, whatever else the run does; they are strictly increasing and never repeat as long
  as the counter does not wrap around.
\<close>

lemma allocated_ids_strictly_increasing:
  fixes m :: "'w::len word ChannelMultiplexer"
  assumes "unat (next_id (mux_chains m)) + length (allocated_ids L xs m) \<le> 2 ^ LENGTH('w)"
  shows "sorted_wrt (<) (allocated_ids L xs m) \<and> distinct (allocated_ids L xs m)"
proof -
  let ?c = "next_id (mux_chains m)"
  let ?n = "length (allocated_ids L xs m)"
  have less: "?c + of_nat a < ?c + of_nat b" if "a < b" "b < ?n" for a b
  proof -
    from that assms have "unat ?c + a < 2 ^ LENGTH('w)" "unat ?c + b < 2 ^ LENGTH('w)"
      by simp_all
    then have "unat (?c + of_nat a) = unat ?c + a" "unat (?c + of_nat b) = unat ?c + b"
      by (simp_all add: unat_counter)
    with that(1) show ?thesis by (simp add: word_less_nat_alt)
  qed
  have "sorted_wrt (<) (map (\<lambda>n. ?c + of_nat n) [0..<?n])"
    by (simp add: sorted_wrt_iff_nth_less less)
  then have s: "sorted_wrt (<) (allocated_ids L xs m)"
    using allocated_ids_eq [of L xs m] by simp
  then have "distinct (allocated_ids L xs m)"
    by (simp add: strict_sorted_iff)
  with s show ?thesis ..
qed

subsection \<open>AllocateNext\<close>

text \<open>
  Claim C3, as the code has it. \<^verbatim>\<open>AllocateNext\<close> returns the counter of the store and
  advances it by one, which is an increase unless the id is the largest of its type; no
  other operation moves the counter, so the next allocation returns the id plus one
  whatever has run in between, and the ids that the allocations of a run return are
  strictly increasing and never repeat as long as the counter does not wrap around. The
  chain of the id is there afterwards and no chain is lost. The registry is not touched:
  \<^verbatim>\<open>HasChannel\<close> answers for every id, the returned one included, as it did before the call.
\<close>

theorem AllocateNext_effect:
  fixes m :: "'w::len word ChannelMultiplexer"
  assumes "AllocateNext m = (i, m1)"
  shows "i = next_id (mux_chains m)
         \<and> next_id (mux_chains m1) = i + 1
         \<and> (i \<noteq> - 1 \<longrightarrow> i < i + 1)
         \<and> HasDataOn m1 i
         \<and> (\<forall>j. HasDataOn m j \<longrightarrow> HasDataOn m1 j)
         \<and> mux_channels m1 = mux_channels m
         \<and> (\<forall>j. HasChannel m1 j = HasChannel m j)
         \<and> (\<forall>L xs m2 j m3. run L xs m1 = Inr m2 \<longrightarrow> Call_AllocateNext \<notin> set xs \<longrightarrow>
               AllocateNext m2 = (j, m3) \<longrightarrow> j = i + 1)
         \<and> (\<forall>L xs. unat (next_id (mux_chains m)) + length (allocated_ids L xs m)
                    \<le> 2 ^ LENGTH('w) \<longrightarrow>
               sorted_wrt (<) (allocated_ids L xs m) \<and> distinct (allocated_ids L xs m))"
proof -
  have run_ids: "\<forall>L xs. unat (next_id (mux_chains m)) + length (allocated_ids L xs m)
                    \<le> 2 ^ LENGTH('w) \<longrightarrow>
               sorted_wrt (<) (allocated_ids L xs m) \<and> distinct (allocated_ids L xs m)"
    using allocated_ids_strictly_increasing by blast
  from assms have i: "i = next_id (mux_chains m)"
    and m1: "m1 = m\<lparr>mux_chains := (if Contains (mux_chains m) (next_id (mux_chains m))
                                     then mux_chains m
                                     else Allocate (mux_chains m) (next_id (mux_chains m)))
                                    \<lparr>next_id := next_id (mux_chains m) + 1\<rparr>\<rparr>"
    by (auto simp: AllocateNext_eq)
  have nxt: "next_id (mux_chains m1) = i + 1"
    by (simp add: i m1)
  have less: "i \<noteq> - 1 \<longrightarrow> i < i + 1"
    using inc_less_eq_self_iff_eq [of i] by (auto simp: not_le)
  have data: "HasDataOn m1 i" "\<forall>j. HasDataOn m j \<longrightarrow> HasDataOn m1 j"
    by (simp_all add: i m1 HasDataOn_def Contains_def Allocate_def)
  have chan: "mux_channels m1 = mux_channels m" "\<forall>j. HasChannel m1 j = HasChannel m j"
    by (simp_all add: m1 HasChannel_def)
  have later: "\<forall>L xs m2 j m3. run L xs m1 = Inr m2 \<longrightarrow> Call_AllocateNext \<notin> set xs \<longrightarrow>
               AllocateNext m2 = (j, m3) \<longrightarrow> j = i + 1"
  proof (intro allI impI)
    fix L :: "'w word HeaderLayout" and xs m2 j m3
    assume "run L xs m1 = Inr m2" and "Call_AllocateNext \<notin> set xs"
      and "AllocateNext m2 = (j, m3)"
    then have "next_id (mux_chains m2) = next_id (mux_chains m1)" and "j = next_id (mux_chains m2)"
      by (simp_all add: run_next_id AllocateNext_eq)
    with nxt show "j = i + 1" by simp
  qed
  from i nxt less data chan later run_ids show ?thesis by blast
qed

text \<open>
  Claim C3 at a concrete input: a header for the id 0 completes before the first
  allocation. \<^verbatim>\<open>AllocateNext\<close> then returns 0, and \<^verbatim>\<open>HasChannel\<close> is true of it.
\<close>

theorem AllocateNext_after_header_has_channel:
  "\<exists>m i m1. run layout64 [Call_Connect (Some group3), Read_completed 0 header_0_0]
                 (ChannelMultiplexer_new []) = Inr m
        \<and> AllocateNext m = (i, m1) \<and> i = 0 \<and> HasDataOn m1 i \<and> HasChannel m1 i"
proof -
  have len: "length header_0_0 = 16" by (simp add: header_0_0_def)
  show ?thesis
    unfolding run_connect_then_header [OF len parse_header_0_0]
    by (simp add: AllocateNext_eq after_first_header_def wide_ids HasChannel_def HasDataOn_def
        Contains_def)
qed

theorem AllocateNext_effect_witness:
  "\<exists>m1. AllocateNext connected3 = (0, m1)
        \<and> next_id (mux_chains m1) = 0 + 1
        \<and> HasDataOn m1 0
        \<and> \<not> HasChannel m1 0
        \<and> (\<exists>m2 m3. run layout64 [Call_OpenChannel 0] m1 = Inr m2
              \<and> Call_AllocateNext \<notin> set [Call_OpenChannel (0 :: 64 word)]
              \<and> AllocateNext m2 = (0 + 1, m3))
        \<and> unat (next_id (mux_chains connected3))
              + length (allocated_ids layout64
                  [Call_AllocateNext, Call_OpenChannel 0, Call_AllocateNext] connected3)
            \<le> 2 ^ LENGTH(64)
        \<and> allocated_ids layout64 [Call_AllocateNext, Call_OpenChannel 0, Call_AllocateNext]
              connected3 = [0, 1]
        \<and> sorted_wrt (<) (allocated_ids layout64
              [Call_AllocateNext, Call_OpenChannel 0, Call_AllocateNext] connected3)"
proof -
  let ?xs = "[Call_AllocateNext, Call_OpenChannel 0, Call_AllocateNext] :: 64 word Operation list"
  obtain m1 where a: "AllocateNext connected3 = (0, m1)"
    by (simp add: AllocateNext_eq connected3_eq BufferChainManager_new_def)
  have g: "mux_group m1 = Some group3"
    using a by (auto simp: AllocateNext_eq connected3_eq)
  obtain m2 where r: "run layout64 [Call_OpenChannel 0] m1 = Inr m2"
    using g by (simp add: OpenChannel_def)
  obtain j m3 where b: "AllocateNext m2 = (j, m3)"
    by (simp add: AllocateNext_eq)
  have no: "Call_AllocateNext \<notin> set [Call_OpenChannel (0 :: 64 word)]"
    by simp
  have before: "\<not> HasChannel connected3 0"
    by (simp add: connected3_eq HasChannel_def)
  have ids: "allocated_ids layout64 ?xs connected3 = [0, 1]"
    by (simp add: AllocateNext_eq OpenChannel_def connected3_eq BufferChainManager_new_def
        Contains_def Allocate_def)
  have bound: "unat (next_id (mux_chains connected3)) + length (allocated_ids layout64 ?xs connected3)
             \<le> 2 ^ LENGTH(64)"
    unfolding ids by (simp add: connected3_eq BufferChainManager_new_def)
  from AllocateNext_effect [OF a] r no b before bound
  have "next_id (mux_chains m1) = 0 + 1" "HasDataOn m1 0" "\<not> HasChannel m1 0" "j = 0 + 1"
    "sorted_wrt (<) (allocated_ids layout64 ?xs connected3)"
    by blast+
  with a r no b ids bound show ?thesis by blast
qed

subsection \<open>Channels and their chains\<close>

lemma registry_backedI:
  assumes "\<And>k ch. mux_channels m k = Some ch \<Longrightarrow> Contains (mux_chains m) (ChannelId_of_int k)"
  shows "registry_backed m"
  using assms by (simp add: registry_backed_def)

lemma registry_backedD:
  "registry_backed m \<Longrightarrow> mux_channels m k = Some ch \<Longrightarrow> Contains (mux_chains m) (ChannelId_of_int k)"
  by (simp add: registry_backed_def)

text \<open>The invariant looks at the keys of the registry and at the ids of the store only.\<close>

lemma registry_backed_mono:
  assumes "registry_backed m"
    and "\<And>k. mux_channels m' k \<noteq> None \<Longrightarrow> mux_channels m k \<noteq> None"
    and "\<And>j. Contains (mux_chains m) j \<Longrightarrow> Contains (mux_chains m') j"
  shows "registry_backed m'"
proof (rule registry_backedI)
  fix k ch
  assume "mux_channels m' k = Some ch"
  then have "mux_channels m k \<noteq> None" using assms(2) by simp
  then obtain c where "mux_channels m k = Some c" by auto
  with assms(1) have "Contains (mux_chains m) (ChannelId_of_int k)"
    by (rule registry_backedD)
  then show "Contains (mux_chains m') (ChannelId_of_int k)" by (rule assms(3))
qed

lemma registry_backed_GetOrCreateChannel:
  fixes m :: "'w::len word ChannelMultiplexer" and i :: "'w word"
  assumes "registry_backed m" and "GetOrCreateChannel (int_of_ChannelId i) m = Inr (p, m1)"
  shows "registry_backed m1"
proof (cases "HasChannel m i")
  case True
  with assms show ?thesis by (simp add: GetOrCreateChannel_found)
next
  case False
  with assms(2) obtain g where g: "mux_group m = Some g"
    by (cases "mux_group m") (simp_all add: GetOrCreateChannel_null)
  let ?M = "m\<lparr>mux_chains := (if Contains (mux_chains m) (via_int i) then mux_chains m
                                 else Allocate (mux_chains m) (via_int i)),
                  mux_channels := (mux_channels m)
                    (int_of_ChannelId i \<mapsto>
                       \<lparr>chan_id = int_of_ChannelId i, expected_peer_count = Size g,
                        completions_received = 0, target_chain = Some (via_int i)\<rparr>)\<rparr>"
  from assms(2) [symmetric] GetOrCreateChannel_created [OF False g]
  have "Inr (p, m1) = (Inr (int_of_ChannelId i, ?M) :: error + c_int \<times> 'w word ChannelMultiplexer)"
    by (rule trans)
  then have "p = int_of_ChannelId i \<and> m1 = ?M"
    by (simp only: sum.inject prod.inject)
  then have m1: "m1 = ?M" by (rule conjunct2)
  show ?thesis
  proof (rule registry_backedI)
    fix k ch
    assume k: "mux_channels m1 k = Some ch"
    show "Contains (mux_chains m1) (ChannelId_of_int k)"
    proof (cases "k = int_of_ChannelId i")
      case True
      then show ?thesis
        by (simp add: m1 via_int_def Contains_def Allocate_def)
    next
      case False
      with k have "mux_channels m k = Some ch" by (simp add: m1)
      with assms(1) have "Contains (mux_chains m) (ChannelId_of_int k)"
        by (rule registry_backedD)
      then show ?thesis
        by (simp add: m1 Contains_def Allocate_def)
    qed
  qed
qed

lemma registry_backed_PickupStream:
  assumes "registry_backed m" and "PickupStream L p s h m = Inr m'"
  shows "registry_backed m'"
proof -
  from assms(2) obtain ch where ch: "mux_channels m p = Some ch"
    by (auto simp: PickupStream_def split: option.splits)
  from assms(2) have "m' = (if expected_bytes h > 0
          then m\<lparr>mux_dispatcher := mux_dispatcher m
                   @ [\<lparr>read_connection = s, read_size = expected_bytes h,
                        read_callback = Channel_payload_callback p\<rparr>]\<rparr>
          else m\<lparr>mux_channels := (mux_channels m)
                     (p \<mapsto> ch\<lparr>completions_received := completions_received ch + 1\<rparr>),
                  mux_dispatcher := mux_dispatcher m @ [header_read L s]\<rparr>)"
    by (simp add: PickupStream_eq [OF ch])
  with ch show ?thesis
    by (intro registry_backed_mono [OF assms(1)]) (auto split: if_splits)
qed

lemma Contains_Append: "Contains (Append st h b) j = Contains st j"
  by (auto simp: Append_def Contains_def split: option.splits)

lemma registry_backed_ReadPayload:
  assumes "registry_backed m" and "ReadPayload L p s b m = Inr m'"
  shows "registry_backed m'"
proof -
  from assms(2) obtain h where
    "m' = ExpectHeaderFrom L s (m\<lparr>mux_chains := Append (mux_chains m) h b\<rparr>)"
    by (auto simp: ReadPayload_def split: option.splits)
  then show ?thesis
    by (intro registry_backed_mono [OF assms(1)]) (simp_all add: ExpectHeaderFrom_eq Contains_Append)
qed

lemma registry_backed_CloseLoopback:
  assumes "registry_backed m" and "CloseLoopback p m = Inr m'"
  shows "registry_backed m'"
proof -
  from assms(2) obtain ch where ch: "mux_channels m p = Some ch"
    by (auto simp: CloseLoopback_def split: option.splits)
  with assms(2) have "m' = m\<lparr>mux_channels := (mux_channels m)
              (p \<mapsto> ch\<lparr>completions_received := completions_received ch + 1\<rparr>)\<rparr>"
    by (simp add: CloseLoopback_eq)
  with ch show ?thesis
    by (intro registry_backed_mono [OF assms(1)]) (auto split: if_splits)
qed

lemma registry_backed_ReadFirstHeaderPartFrom:
  assumes "registry_backed m" and "ReadFirstHeaderPartFrom L s buffer m = Inr m'"
  shows "registry_backed m'"
proof -
  from assms(2) obtain p m1 where
    g: "GetOrCreateChannel (int_of_ChannelId (channel_id (ParseHeader L buffer))) m = Inr (p, m1)"
    and pk: "PickupStream L p s (ParseHeader L buffer) m1 = Inr m'"
    by (auto simp: ReadFirstHeaderPartFrom_def Let_def split: sum.splits)
  from registry_backed_GetOrCreateChannel [OF assms(1) g] pk show ?thesis
    by (rule registry_backed_PickupStream)
qed

lemma registry_backed_invoke_closer:
  fixes m :: "'w::len word ChannelMultiplexer" and i :: "'w word"
  assumes "registry_backed m" and "invoke_closer (CloseLoopbackStream_bound i) m = Inr m'"
  shows "registry_backed m'"
proof -
  from assms(2) obtain p m1 where
    g: "GetOrCreateChannel (int_of_ChannelId i) m = Inr (p, m1)"
    and c: "CloseLoopback p m1 = Inr m'"
    by (auto simp: CloseLoopbackStream_def split: sum.splits)
  from registry_backed_GetOrCreateChannel [OF assms(1) g] c show ?thesis
    by (rule registry_backed_CloseLoopback)
qed

lemma registry_backed_Dispatch:
  assumes "registry_backed m" and "Dispatch L n buffer m = Inr m'"
  shows "registry_backed m'"
proof -
  let ?d = "mux_dispatcher m"
  let ?m1 = "m\<lparr>mux_dispatcher := take n ?d @ drop (Suc n) ?d\<rparr>"
  have m1: "registry_backed ?m1"
    by (rule registry_backed_mono [OF assms(1)]) simp_all
  show ?thesis
  proof (cases "n < length ?d \<and> length buffer = read_size (?d ! n)")
    case False
    with assms(2) have "m' = m" by (simp add: Dispatch_def Let_def)
    with assms(1) show ?thesis by simp
  next
    case True
    show ?thesis
    proof (cases "read_callback (?d ! n)")
      case ReadFirstHeaderPartFrom_callback
      with True assms(2)
      have "ReadFirstHeaderPartFrom L (read_connection (?d ! n)) buffer ?m1 = Inr m'"
        by (simp add: Dispatch_def Let_def)
      with m1 show ?thesis by (rule registry_backed_ReadFirstHeaderPartFrom)
    next
      case (Channel_payload_callback p)
      with True assms(2)
      have "ReadPayload L p (read_connection (?d ! n)) buffer ?m1 = Inr m'"
        by (simp add: Dispatch_def Let_def)
      with m1 show ?thesis by (rule registry_backed_ReadPayload)
    qed
  qed
qed

text \<open>
  Every operation that returns keeps the invariant that a channel of the registry is backed
  by a chain of the store, whatever the width of the ids.
\<close>

theorem registry_backed_step:
  assumes "registry_backed m" and "step L x m = Inr m'"
  shows "registry_backed m'"
proof (cases x)
  case (Call_Connect s)
  with assms(2) obtain g where "m' = Connect_loop L g [0..<Size g] (m\<lparr>mux_group := s\<rparr>)"
    by (auto simp: Connect_def split: option.splits)
  then show ?thesis
    by (intro registry_backed_mono [OF assms(1)]) (simp_all add: Connect_loop_eq)
next
  case Call_AllocateNext
  with assms(2) show ?thesis
    by (intro registry_backed_mono [OF assms(1)])
      (auto simp: AllocateNext_eq Contains_def Allocate_def split: if_splits)
next
  case (Call_OpenChannel i)
  with assms show ?thesis by (auto simp: OpenChannel_def split: option.splits)
next
  case Call_Close
  with assms(2) show ?thesis
    by (intro registry_backed_mono [OF assms(1)]) (auto simp: Close_def split: option.splits)
next
  case (Read_completed n buffer)
  with assms show ?thesis by (auto intro: registry_backed_Dispatch)
next
  case (Loopback_closed i)
  with assms show ?thesis by (auto intro: registry_backed_invoke_closer)
qed

lemma registry_backed_new: "registry_backed (ChannelMultiplexer_new d)"
  by (simp add: registry_backed_def ChannelMultiplexer_new_def)

lemma registry_backed_run:
  "registry_backed m \<Longrightarrow> run L xs m = Inr m' \<Longrightarrow> registry_backed m'"
proof (induction xs arbitrary: m)
  case Nil
  then show ?case by simp
next
  case (Cons x xs)
  show ?case
  proof (cases "step L x m")
    case (Inl e)
    with Cons.prems show ?thesis by simp
  next
    case (Inr m1)
    with Cons.prems have "run L xs m1 = Inr m'" by simp
    with registry_backed_step [OF Cons.prems(1) Inr] show ?thesis by (rule Cons.IH)
  qed
qed

text \<open>
  Hence, in every state that a run reaches from a new multiplexer, an id that survives the
  conversion to \<^verbatim>\<open>int\<close> and back has a chain whenever it has a channel.
\<close>

theorem channel_has_chain_when_id_fits_int:
  assumes "run L xs (ChannelMultiplexer_new d) = Inr m" and "fits_int i" and "HasChannel m i"
  shows "HasDataOn m i"
proof -
  from registry_backed_new assms(1) have rb: "registry_backed m"
    by (rule registry_backed_run)
  from assms(3) obtain ch where "mux_channels m (int_of_ChannelId i) = Some ch"
    by (auto simp: HasChannel_def)
  with rb have "Contains (mux_chains m) (ChannelId_of_int (int_of_ChannelId i))"
    by (rule registry_backedD)
  with assms(2) show ?thesis
    by (simp add: HasDataOn_def fits_int_def via_int_def)
qed

text \<open>Every id survives the conversion when \<^verbatim>\<open>ChannelId\<close> is no wider than \<^verbatim>\<open>int\<close>.\<close>

theorem fits_int_narrow:
  assumes "LENGTH('w::len) \<le> 32"
  shows "fits_int (i :: 'w word)"
  unfolding fits_int_def via_int_def int_of_ChannelId_def ChannelId_of_int_def
proof (rule bit_word_eqI)
  fix n :: nat
  assume n: "n < LENGTH('w)"
  with assms have "n = 31 \<or> n < 31" by arith
  with n show "bit (scast (ucast i :: 32 word) :: 'w word) n = bit i n"
    by (auto simp: bit_ucast_iff bit_signed_iff min_def not_le dest: bit_imp_le_length)
qed

subsection \<open>Ids that no operation names\<close>

lemma known_ids_mono:
  assumes "known_ids m N A"
    and "\<And>k. mux_channels m' k \<noteq> None \<Longrightarrow> mux_channels m k \<noteq> None"
    and "\<And>j. Contains (mux_chains m') j \<Longrightarrow> Contains (mux_chains m) j"
    and "N \<subseteq> N'" and "A \<subseteq> A'"
  shows "known_ids m' N' A'"
  using assms unfolding known_ids_def by blast

lemma known_ids_GetOrCreateChannel:
  fixes m :: "'w::len word ChannelMultiplexer" and i :: "'w word"
  assumes "known_ids m N A" and "GetOrCreateChannel (int_of_ChannelId i) m = Inr (p, m1)"
  shows "known_ids m1 (insert i N) A"
proof (cases "HasChannel m i")
  case True
  with assms(2) have "m1 = m" by (simp add: GetOrCreateChannel_found)
  with assms(1) show ?thesis
    by (intro known_ids_mono [OF assms(1)]) auto
next
  case False
  with assms(2) obtain g where g: "mux_group m = Some g"
    by (cases "mux_group m") (simp_all add: GetOrCreateChannel_null)
  let ?M = "m\<lparr>mux_chains := (if Contains (mux_chains m) (via_int i) then mux_chains m
                                 else Allocate (mux_chains m) (via_int i)),
                  mux_channels := (mux_channels m)
                    (int_of_ChannelId i \<mapsto>
                       \<lparr>chan_id = int_of_ChannelId i, expected_peer_count = Size g,
                        completions_received = 0, target_chain = Some (via_int i)\<rparr>)\<rparr>"
  from assms(2) [symmetric] GetOrCreateChannel_created [OF False g]
  have "Inr (p, m1) = (Inr (int_of_ChannelId i, ?M) :: error + c_int \<times> 'w word ChannelMultiplexer)"
    by (rule trans)
  then have "p = int_of_ChannelId i \<and> m1 = ?M"
    by (simp only: sum.inject prod.inject)
  then have m1: "m1 = ?M" by (rule conjunct2)
  have keys: "\<And>k. mux_channels m1 k \<noteq> None \<Longrightarrow> k \<in> int_of_ChannelId ` insert i N"
    using assms(1) by (auto simp: m1 known_ids_def split: if_splits)
  have ids: "\<And>j. Contains (mux_chains m1) j \<Longrightarrow> j \<in> via_int ` insert i N \<union> A"
    using assms(1) by (auto simp: m1 known_ids_def Contains_def Allocate_def split: if_splits)
  from keys ids show ?thesis
    unfolding known_ids_def by blast
qed

lemma known_ids_PickupStream:
  assumes "known_ids m N A" and "PickupStream L p s h m = Inr m'"
  shows "known_ids m' N A"
proof -
  from assms(2) obtain ch where ch: "mux_channels m p = Some ch"
    by (auto simp: PickupStream_def split: option.splits)
  from assms(2) have "m' = (if expected_bytes h > 0
          then m\<lparr>mux_dispatcher := mux_dispatcher m
                   @ [\<lparr>read_connection = s, read_size = expected_bytes h,
                        read_callback = Channel_payload_callback p\<rparr>]\<rparr>
          else m\<lparr>mux_channels := (mux_channels m)
                     (p \<mapsto> ch\<lparr>completions_received := completions_received ch + 1\<rparr>),
                  mux_dispatcher := mux_dispatcher m @ [header_read L s]\<rparr>)"
    by (simp add: PickupStream_eq [OF ch])
  with ch show ?thesis
    by (intro known_ids_mono [OF assms(1)]) (auto split: if_splits)
qed

lemma known_ids_ReadPayload:
  assumes "known_ids m N A" and "ReadPayload L p s b m = Inr m'"
  shows "known_ids m' N A"
proof -
  from assms(2) obtain h where
    "m' = ExpectHeaderFrom L s (m\<lparr>mux_chains := Append (mux_chains m) h b\<rparr>)"
    by (auto simp: ReadPayload_def split: option.splits)
  then show ?thesis
    by (intro known_ids_mono [OF assms(1)]) (simp_all add: ExpectHeaderFrom_eq Contains_Append)
qed

lemma known_ids_CloseLoopback:
  assumes "known_ids m N A" and "CloseLoopback p m = Inr m'"
  shows "known_ids m' N A"
proof -
  from assms(2) obtain ch where ch: "mux_channels m p = Some ch"
    by (auto simp: CloseLoopback_def split: option.splits)
  with assms(2) have "m' = m\<lparr>mux_channels := (mux_channels m)
              (p \<mapsto> ch\<lparr>completions_received := completions_received ch + 1\<rparr>)\<rparr>"
    by (simp add: CloseLoopback_eq)
  with ch show ?thesis
    by (intro known_ids_mono [OF assms(1)]) (auto split: if_splits)
qed

lemma known_ids_Dispatch:
  assumes "known_ids m N A" and "Dispatch L n buffer m = Inr m'"
  shows "known_ids m' (insert (channel_id (ParseHeader L buffer)) N) A"
proof -
  let ?d = "mux_dispatcher m"
  let ?m1 = "m\<lparr>mux_dispatcher := take n ?d @ drop (Suc n) ?d\<rparr>"
  have m1: "known_ids ?m1 N A"
    by (rule known_ids_mono [OF assms(1)]) simp_all
  show ?thesis
  proof (cases "n < length ?d \<and> length buffer = read_size (?d ! n)")
    case False
    with assms(2) have "m' = m" by (simp add: Dispatch_def Let_def)
    then show ?thesis
      by (intro known_ids_mono [OF assms(1)]) auto
  next
    case True
    show ?thesis
    proof (cases "read_callback (?d ! n)")
      case ReadFirstHeaderPartFrom_callback
      with True assms(2)
      have "ReadFirstHeaderPartFrom L (read_connection (?d ! n)) buffer ?m1 = Inr m'"
        by (simp add: Dispatch_def Let_def)
      then obtain p m2 where
        g: "GetOrCreateChannel (int_of_ChannelId (channel_id (ParseHeader L buffer))) ?m1 = Inr (p, m2)"
        and pk: "PickupStream L p (read_connection (?d ! n)) (ParseHeader L buffer) m2 = Inr m'"
        by (auto simp: ReadFirstHeaderPartFrom_def Let_def split: sum.splits)
      from known_ids_GetOrCreateChannel [OF m1 g] pk show ?thesis
        by (rule known_ids_PickupStream)
    next
      case (Channel_payload_callback p)
      with True assms(2)
      have "ReadPayload L p (read_connection (?d ! n)) buffer ?m1 = Inr m'"
        by (simp add: Dispatch_def Let_def)
      with m1 have "known_ids m' N A" by (rule known_ids_ReadPayload)
      then show ?thesis
        by (rule known_ids_mono) auto
    qed
  qed
qed

lemma known_ids_step:
  assumes "known_ids m N A" and "step L x m = Inr m'"
  shows "known_ids m' (N \<union> set (named_ids L x))
           (A \<union> set (case x of Call_AllocateNext \<Rightarrow> [fst (AllocateNext m)] | _ \<Rightarrow> []))"
proof (cases x)
  case (Call_Connect s)
  with assms(2) obtain g where "m' = Connect_loop L g [0..<Size g] (m\<lparr>mux_group := s\<rparr>)"
    by (auto simp: Connect_def split: option.splits)
  then show ?thesis
    by (intro known_ids_mono [OF assms(1)]) (simp_all add: Connect_loop_eq)
next
  case Call_AllocateNext
  with assms(2) have m': "m' = snd (AllocateNext m)" by simp
  show ?thesis
    using assms(1) unfolding known_ids_def m' Call_AllocateNext
    by (auto simp: AllocateNext_eq Contains_def Allocate_def split: if_splits)
next
  case (Call_OpenChannel i)
  with assms(2) have "m' = m" by (auto simp: OpenChannel_def split: option.splits)
  then show ?thesis
    by (intro known_ids_mono [OF assms(1)]) auto
next
  case Call_Close
  with assms(2) show ?thesis
    by (intro known_ids_mono [OF assms(1)]) (auto simp: Close_def split: option.splits)
next
  case (Read_completed n buffer)
  with assms(2) have "Dispatch L n buffer m = Inr m'" by simp
  with assms(1) have "known_ids m' (insert (channel_id (ParseHeader L buffer)) N) A"
    by (rule known_ids_Dispatch)
  with Read_completed show ?thesis by simp
next
  case (Loopback_closed i)
  with assms(2) obtain p m1 where
    g: "GetOrCreateChannel (int_of_ChannelId i) m = Inr (p, m1)"
    and c: "CloseLoopback p m1 = Inr m'"
    by (auto simp: CloseLoopbackStream_def split: sum.splits)
  from known_ids_GetOrCreateChannel [OF assms(1) g] c
  have "known_ids m' (insert i N) A" by (rule known_ids_CloseLoopback)
  with Loopback_closed show ?thesis by simp
qed

lemma known_ids_run:
  "known_ids m N A \<Longrightarrow> run L xs m = Inr m' \<Longrightarrow>
     known_ids m' (N \<union> set (concat (map (named_ids L) xs))) (A \<union> set (allocated_ids L xs m))"
proof (induction xs arbitrary: m N A)
  case Nil
  then show ?case by simp
next
  case (Cons x xs)
  show ?case
  proof (cases "step L x m")
    case (Inl e)
    with Cons.prems show ?thesis by simp
  next
    case (Inr m1)
    with Cons.prems have r: "run L xs m1 = Inr m'" by simp
    from Cons.IH [OF known_ids_step [OF Cons.prems(1) Inr] r] Inr
    show ?thesis by (simp add: Un_assoc)
  qed
qed

lemma known_ids_new: "known_ids (ChannelMultiplexer_new d) {} {}"
  by (simp add: known_ids_def ChannelMultiplexer_new_def BufferChainManager_new_def Contains_def)

text \<open>
  In a run from a new multiplexer in which every id that a call or a header names survives
  the conversion to \<^verbatim>\<open>int\<close> and back, such an id that no operation named and no
  \<^verbatim>\<open>AllocateNext\<close> returned has neither a channel nor a chain.
\<close>

theorem unnamed_id_has_nothing_when_ids_fit_int:
  assumes "run L xs (ChannelMultiplexer_new d) = Inr m"
    and "\<forall>j \<in> set (concat (map (named_ids L) xs)). fits_int j"
    and "fits_int i"
    and "i \<notin> set (concat (map (named_ids L) xs))"
    and "i \<notin> set (allocated_ids L xs (ChannelMultiplexer_new d))"
  shows "\<not> HasChannel m i \<and> \<not> HasDataOn m i"
proof -
  let ?N = "set (concat (map (named_ids L) xs))"
  let ?A = "set (allocated_ids L xs (ChannelMultiplexer_new d))"
  from known_ids_run [OF known_ids_new assms(1)] have k: "known_ids m ?N ?A" by simp
  have "\<not> HasChannel m i"
  proof
    assume "HasChannel m i"
    with k have "int_of_ChannelId i \<in> int_of_ChannelId ` ?N"
      unfolding HasChannel_def known_ids_def by blast
    then obtain j where j: "j \<in> ?N" "int_of_ChannelId i = int_of_ChannelId j"
      by (rule imageE)
    then have "via_int i = via_int j" by (simp add: via_int_def)
    with assms(2,3) j(1) have "i = j" by (auto simp: fits_int_def)
    with assms(4) j(1) show False by simp
  qed
  moreover have "\<not> HasDataOn m i"
  proof
    assume "HasDataOn m i"
    with k have "i \<in> via_int ` ?N \<union> ?A"
      unfolding HasDataOn_def known_ids_def by blast
    with assms(5) have "i \<in> via_int ` ?N" by blast
    then obtain j where j: "j \<in> ?N" "i = via_int j"
      by (rule imageE)
    with assms(2) have "i = j" by (auto simp: fits_int_def)
    with assms(4) j(1) show False by simp
  qed
  ultimately show ?thesis ..
qed

subsection \<open>Headers whose id fits int\<close>

lemma ReadFirstHeaderPartFrom_other_chains:
  assumes "ReadFirstHeaderPartFrom L s buffer m = Inr m'" and "j \<noteq> via_int (channel_id (ParseHeader L buffer))"
  shows "Contains (mux_chains m') j = Contains (mux_chains m) j"
proof -
  from assms(1) obtain p m1 where
    g: "GetOrCreateChannel (int_of_ChannelId (channel_id (ParseHeader L buffer))) m = Inr (p, m1)"
    and pk: "PickupStream L p s (ParseHeader L buffer) m1 = Inr m'"
    by (auto simp: ReadFirstHeaderPartFrom_def Let_def split: sum.splits)
  from g assms(2) have "Contains (mux_chains m1) j = Contains (mux_chains m) j"
    by (auto simp: GetOrCreateChannel_def Let_def via_int_def Contains_def Allocate_def
        split: if_splits option.splits)
  with PickupStream_frame(2) [OF pk] show ?thesis by simp
qed

text \<open>
  The completion of a header read whose id survives the conversion to \<^verbatim>\<open>int\<close> and back, in
  a state that a run reaches from a new multiplexer and that has a group: the id goes to
  \<^verbatim>\<open>GetOrCreateChannel\<close> and the connection and the header to \<^verbatim>\<open>PickupStream\<close>; afterwards
  the id has a channel and a chain; a channel that had to be created expects as many peers
  as the group has members and targets the chain of the id; no other id gains or loses a
  chain.
\<close>

theorem header_read_completion_when_id_fits_int:
  assumes "run L xs (ChannelMultiplexer_new d) = Inr m" and "mux_group m = Some g"
    and "ParseHeader L buffer = h" and "fits_int (channel_id h)"
  shows "\<exists>m1 m' ch.
           GetOrCreateChannel (int_of_ChannelId (channel_id h)) m
             = Inr (int_of_ChannelId (channel_id h), m1)
           \<and> ReadFirstHeaderPartFrom L s buffer m
               = PickupStream L (int_of_ChannelId (channel_id h)) s h m1
           \<and> ReadFirstHeaderPartFrom L s buffer m = Inr m'
           \<and> HasChannel m' (channel_id h)
           \<and> HasDataOn m' (channel_id h)
           \<and> mux_channels m' (int_of_ChannelId (channel_id h)) = Some ch
           \<and> (\<not> HasChannel m (channel_id h) \<longrightarrow>
                 expected_peer_count ch = Size g \<and> target_chain ch = Some (channel_id h))
           \<and> (\<forall>j. j \<noteq> channel_id h \<longrightarrow> HasDataOn m' j = HasDataOn m j)
           \<and> (\<forall>j. HasDataOn m j \<longrightarrow> HasDataOn m' j)
           \<and> mux_dispatcher m' = mux_dispatcher m
               @ [if expected_bytes h > 0
                  then \<lparr>read_connection = s, read_size = expected_bytes h,
                        read_callback = Channel_payload_callback (int_of_ChannelId (channel_id h))\<rparr>
                  else header_read L s]"
proof -
  let ?k = "int_of_ChannelId (channel_id h)"
  have v: "via_int (channel_id h) = channel_id h"
    using assms(4) by (simp add: fits_int_def)
  from registry_backed_new assms(1) have rb: "registry_backed m"
    by (rule registry_backed_run)
  from ReadFirstHeaderPartFrom_delegates [OF assms(2,3)] obtain m1 where
    d: "GetOrCreateChannel ?k m = Inr (?k, m1)"
      "ReadFirstHeaderPartFrom L s buffer m = PickupStream L ?k s h m1"
    by blast
  from ReadFirstHeaderPartFrom_effect [OF assms(2,3), where s = s] obtain m' ch where
    e: "ReadFirstHeaderPartFrom L s buffer m = Inr m'"
      "mux_channels m' ?k = Some ch"
      "expected_peer_count ch = (case mux_channels m ?k of None \<Rightarrow> Size g | Some c \<Rightarrow> expected_peer_count c)"
      "mux_channels m ?k = None \<longrightarrow>
         Contains (mux_chains m') (via_int (channel_id h)) \<and> target_chain ch = Some (via_int (channel_id h))"
      "\<forall>j. Contains (mux_chains m) j \<longrightarrow> Contains (mux_chains m') j"
      "mux_dispatcher m' = mux_dispatcher m
         @ [if expected_bytes h > 0
            then \<lparr>read_connection = s, read_size = expected_bytes h,
                  read_callback = Channel_payload_callback ?k\<rparr>
            else header_read L s]"
    by (elim exE conjE) (rule that, assumption+)
  have chan: "HasChannel m' (channel_id h)"
    using e(2) by (simp add: HasChannel_def)
  have data: "HasDataOn m' (channel_id h)"
  proof (cases "mux_channels m ?k")
    case None
    with e(4) v show ?thesis by (simp add: HasDataOn_def)
  next
    case (Some c)
    with rb have "Contains (mux_chains m) (ChannelId_of_int ?k)"
      by (rule registry_backedD)
    then have "Contains (mux_chains m) (channel_id h)"
      using v by (simp add: via_int_def)
    with e(5) show ?thesis by (simp add: HasDataOn_def)
  qed
  have created: "\<not> HasChannel m (channel_id h) \<longrightarrow>
                 expected_peer_count ch = Size g \<and> target_chain ch = Some (channel_id h)"
    using e(3,4) v by (auto simp: HasChannel_def)
  have others: "\<forall>j. j \<noteq> channel_id h \<longrightarrow> HasDataOn m' j = HasDataOn m j"
    using ReadFirstHeaderPartFrom_other_chains [OF e(1)] assms(3) v
    by (simp add: HasDataOn_def)
  have mono: "\<forall>j. HasDataOn m j \<longrightarrow> HasDataOn m' j"
    using e(5) by (simp add: HasDataOn_def)
  from d e(1,2,6) chan data created others mono show ?thesis by blast
qed

subsection \<open>The closer of the loopback target\<close>

text \<open>Every operation keeps the tie between a channel and its registry key.\<close>

lemma registry_tiedD:
  "registry_tied m \<Longrightarrow> mux_channels m k = Some ch \<Longrightarrow>
     chan_id ch = k \<and> target_chain ch = Some (ChannelId_of_int k)"
  by (simp add: registry_tied_def)

lemma registry_tied_channels:
  "mux_channels m' = mux_channels m \<Longrightarrow> registry_tied m \<Longrightarrow> registry_tied m'"
  by (simp add: registry_tied_def)

lemma registry_tied_completion:
  assumes "registry_tied m" and "mux_channels m p = Some ch"
    and "mux_channels m' = (mux_channels m)
           (p \<mapsto> ch\<lparr>completions_received := completions_received ch + 1\<rparr>)"
  shows "registry_tied m'"
  using assms unfolding registry_tied_def by (auto split: if_splits)

lemma registry_tied_GetOrCreateChannel:
  fixes m :: "'w::len word ChannelMultiplexer" and i :: "'w word"
  assumes "registry_tied m" and "GetOrCreateChannel (int_of_ChannelId i) m = Inr (p, m1)"
  shows "registry_tied m1"
proof (cases "HasChannel m i")
  case True
  with assms show ?thesis by (simp add: GetOrCreateChannel_found)
next
  case False
  with assms(2) obtain g where g: "mux_group m = Some g"
    by (cases "mux_group m") (simp_all add: GetOrCreateChannel_null)
  let ?M = "m\<lparr>mux_chains := (if Contains (mux_chains m) (via_int i) then mux_chains m
                                 else Allocate (mux_chains m) (via_int i)),
                  mux_channels := (mux_channels m)
                    (int_of_ChannelId i \<mapsto>
                       \<lparr>chan_id = int_of_ChannelId i, expected_peer_count = Size g,
                        completions_received = 0, target_chain = Some (via_int i)\<rparr>)\<rparr>"
  from assms(2) [symmetric] GetOrCreateChannel_created [OF False g]
  have "Inr (p, m1) = (Inr (int_of_ChannelId i, ?M) :: error + c_int \<times> 'w word ChannelMultiplexer)"
    by (rule trans)
  then have "p = int_of_ChannelId i \<and> m1 = ?M"
    by (simp only: sum.inject prod.inject)
  then have m1: "m1 = ?M" by (rule conjunct2)
  show ?thesis
    using assms(1) unfolding registry_tied_def m1
    by (auto simp: via_int_def split: if_splits)
qed

lemma registry_tied_PickupStream:
  assumes "registry_tied m" and "PickupStream L p s h m = Inr m'"
  shows "registry_tied m'"
proof -
  from assms(2) obtain ch where ch: "mux_channels m p = Some ch"
    by (auto simp: PickupStream_def split: option.splits)
  show ?thesis
  proof (cases "expected_bytes h > 0")
    case True
    with assms(2) ch have "mux_channels m' = mux_channels m"
      by (auto simp: PickupStream_eq [OF ch])
    then show ?thesis using assms(1) by (rule registry_tied_channels)
  next
    case False
    with assms(2) ch have "mux_channels m' = (mux_channels m)
           (p \<mapsto> ch\<lparr>completions_received := completions_received ch + 1\<rparr>)"
      by (auto simp: PickupStream_eq [OF ch])
    with assms(1) ch show ?thesis by (rule registry_tied_completion)
  qed
qed

lemma registry_tied_CloseLoopback:
  assumes "registry_tied m" and "CloseLoopback p m = Inr m'"
  shows "registry_tied m'"
proof -
  from assms(2) obtain ch where ch: "mux_channels m p = Some ch"
    by (auto simp: CloseLoopback_def split: option.splits)
  with assms(2) have "mux_channels m' = (mux_channels m)
           (p \<mapsto> ch\<lparr>completions_received := completions_received ch + 1\<rparr>)"
    by (auto simp: CloseLoopback_eq)
  with assms(1) ch show ?thesis by (rule registry_tied_completion)
qed

lemma registry_tied_Dispatch:
  assumes "registry_tied m" and "Dispatch L n buffer m = Inr m'"
  shows "registry_tied m'"
proof -
  let ?d = "mux_dispatcher m"
  let ?m1 = "m\<lparr>mux_dispatcher := take n ?d @ drop (Suc n) ?d\<rparr>"
  have m1: "registry_tied ?m1"
    by (rule registry_tied_channels [OF _ assms(1)]) simp
  show ?thesis
  proof (cases "n < length ?d \<and> length buffer = read_size (?d ! n)")
    case False
    with assms(2) have "m' = m" by (simp add: Dispatch_def Let_def)
    with assms(1) show ?thesis by simp
  next
    case True
    show ?thesis
    proof (cases "read_callback (?d ! n)")
      case ReadFirstHeaderPartFrom_callback
      with True assms(2)
      have "ReadFirstHeaderPartFrom L (read_connection (?d ! n)) buffer ?m1 = Inr m'"
        by (simp add: Dispatch_def Let_def)
      then obtain p m2 where
        g: "GetOrCreateChannel (int_of_ChannelId (channel_id (ParseHeader L buffer))) ?m1 = Inr (p, m2)"
        and pk: "PickupStream L p (read_connection (?d ! n)) (ParseHeader L buffer) m2 = Inr m'"
        by (auto simp: ReadFirstHeaderPartFrom_def Let_def split: sum.splits)
      from registry_tied_GetOrCreateChannel [OF m1 g] pk show ?thesis
        by (rule registry_tied_PickupStream)
    next
      case (Channel_payload_callback p)
      with True assms(2)
      have "ReadPayload L p (read_connection (?d ! n)) buffer ?m1 = Inr m'"
        by (simp add: Dispatch_def Let_def)
      from ReadPayload_frame(2) [OF this] have "mux_channels m' = mux_channels m" by simp
      then show ?thesis using assms(1) by (rule registry_tied_channels)
    qed
  qed
qed

lemma registry_tied_step:
  assumes "registry_tied m" and "step L x m = Inr m'"
  shows "registry_tied m'"
proof (cases x)
  case (Call_Connect s)
  with assms(2) obtain g where "m' = Connect_loop L g [0..<Size g] (m\<lparr>mux_group := s\<rparr>)"
    by (auto simp: Connect_def split: option.splits)
  then have "mux_channels m' = mux_channels m" by (simp add: Connect_loop_eq)
  then show ?thesis using assms(1) by (rule registry_tied_channels)
next
  case Call_AllocateNext
  with assms(2) have "mux_channels m' = mux_channels m" by (auto simp: AllocateNext_eq)
  then show ?thesis using assms(1) by (rule registry_tied_channels)
next
  case (Call_OpenChannel i)
  with assms show ?thesis by (auto simp: OpenChannel_def split: option.splits)
next
  case Call_Close
  with assms(2) have "mux_channels m' = mux_channels m"
    by (auto simp: Close_def split: option.splits)
  then show ?thesis using assms(1) by (rule registry_tied_channels)
next
  case (Read_completed n buffer)
  with assms show ?thesis by (auto intro: registry_tied_Dispatch)
next
  case (Loopback_closed i)
  with assms(2) obtain p m1 where
    g: "GetOrCreateChannel (int_of_ChannelId i) m = Inr (p, m1)"
    and c: "CloseLoopback p m1 = Inr m'"
    by (auto simp: CloseLoopbackStream_def split: sum.splits)
  from registry_tied_GetOrCreateChannel [OF assms(1) g] c show ?thesis
    by (rule registry_tied_CloseLoopback)
qed

lemma registry_tied_new: "registry_tied (ChannelMultiplexer_new d)"
  by (simp add: registry_tied_def ChannelMultiplexer_new_def)

lemma registry_tied_run:
  "registry_tied m \<Longrightarrow> run L xs m = Inr m' \<Longrightarrow> registry_tied m'"
proof (induction xs arbitrary: m)
  case Nil
  then show ?case by simp
next
  case (Cons x xs)
  show ?case
  proof (cases "step L x m")
    case (Inl e)
    with Cons.prems show ?thesis by simp
  next
    case (Inr m1)
    with Cons.prems have "run L xs m1 = Inr m'" by simp
    with registry_tied_step [OF Cons.prems(1) Inr] show ?thesis by (rule Cons.IH)
  qed
qed

text \<open>
  The closer of the loopback target, for an id that the conversion to \<^verbatim>\<open>int\<close> and back leaves
  unchanged, in a state reached from a new multiplexer that has a group: it succeeds, and
  the channel whose completions it raises by one is the channel of the id; it was constructed
  with the id and with the id's chain, which the store has afterwards. No other entry of the
  registry changes.
\<close>

theorem closer_closes_the_channel_of_the_id_when_it_fits_int:
  assumes "run L xs (ChannelMultiplexer_new d) = Inr m" and "mux_group m = Some g"
    and "fits_int i"
  shows "\<exists>m' ch. invoke_closer (CloseLoopbackStream_bound i) m = Inr m'
           \<and> mux_channels m' (int_of_ChannelId i) = Some ch
           \<and> ChannelId_of_int (chan_id ch) = i
           \<and> target_chain ch = Some i
           \<and> HasChannel m' i
           \<and> HasDataOn m' i
           \<and> completions_received ch =
               (case mux_channels m (int_of_ChannelId i) of
                  None \<Rightarrow> 0 | Some c \<Rightarrow> completions_received c) + 1
           \<and> (\<forall>k. k \<noteq> int_of_ChannelId i \<longrightarrow> mux_channels m' k = mux_channels m k)"
proof -
  let ?k = "int_of_ChannelId i"
  have v: "via_int i = i" "ChannelId_of_int ?k = i"
    using assms(3) by (simp_all add: fits_int_def via_int_def)
  from registry_tied_new assms(1) have tied: "registry_tied m" by (rule registry_tied_run)
  from registry_backed_new assms(1) have backed: "registry_backed m" by (rule registry_backed_run)
  show ?thesis
  proof (cases "mux_channels m ?k")
    case None
    then have no: "\<not> HasChannel m i" by (simp add: HasChannel_def)
    show ?thesis
      using None v
      by (simp add: CloseLoopbackStream_def GetOrCreateChannel_created [OF no assms(2)]
          CloseLoopback_eq HasChannel_def HasDataOn_def Contains_def Allocate_def)
  next
    case (Some c)
    then have has: "HasChannel m i" by (simp add: HasChannel_def)
    from registry_tiedD [OF tied Some] v
    have c: "ChannelId_of_int (chan_id c) = i" "target_chain c = Some i" by simp_all
    from registry_backedD [OF backed Some] v have data: "Contains (mux_chains m) i" by simp
    show ?thesis
      using Some c data
      by (simp add: CloseLoopbackStream_def GetOrCreateChannel_found [OF has]
          CloseLoopback_eq HasChannel_def HasDataOn_def)
  qed
qed

text \<open>
  Claim C4, at a failing input. \<^verbatim>\<open>ChannelId\<close> is 64 bits wide and the multiplexer is attached
  to a group of three as rank 0. The header (length 0, id 5) completes: the registry has the
  channel of id 5, with one completion, and the store has the chain of id 5. Then
  \<^verbatim>\<open>OpenChannel\<close> is called with the id \<open>2^32 + 5\<close>. The loopback target at the own rank holds
  the handle of the chain of \<open>2^32 + 5\<close>, which the store does not have. Its closer goes through
  the \<^verbatim>\<open>int\<close> parameter of \<^verbatim>\<open>CloseLoopbackStream\<close>, finds the channel under the key 5 and raises
  the completions of that channel, the channel of id 5 with the chain of id 5, from 1 to 2.
  No channel is located or created for \<open>2^32 + 5\<close>: the registry has the key 5 alone
  afterwards, and the store still has no chain of \<open>2^32 + 5\<close>.
\<close>

theorem closer_of_wide_id_closes_another_channel:
  "\<exists>emitters m'.
       run layout64 [Call_Connect (Some group3), Read_completed 0 header_0_5]
         (ChannelMultiplexer_new []) = Inr after_header_0_5
     \<and> mux_channels after_header_0_5 5
         = Some \<lparr>chan_id = 5, expected_peer_count = Size group3, completions_received = 1,
                 target_chain = Some 5\<rparr>
     \<and> OpenChannel after_header_0_5 4294967301 = Inr (emitters, after_header_0_5)
     \<and> emitters ! MyRank group3
         = BlockEmitter (LoopbackTarget (Chain (mux_chains after_header_0_5) 4294967301)
                           (CloseLoopbackStream_bound 4294967301))
     \<and> Chain (mux_chains after_header_0_5) 4294967301 = None
     \<and> invoke_closer (CloseLoopbackStream_bound 4294967301) after_header_0_5 = Inr m'
     \<and> mux_channels m' 5
         = Some \<lparr>chan_id = 5, expected_peer_count = Size group3, completions_received = 2,
                 target_chain = Some 5\<rparr>
     \<and> dom (mux_channels m') = {5}
     \<and> \<not> HasDataOn m' 4294967301"
proof -
  let ?m = after_header_0_5
  have len: "length header_0_5 = 16" by (simp add: header_0_5_def)
  have r: "run layout64 [Call_Connect (Some group3), Read_completed 0 header_0_5]
         (ChannelMultiplexer_new []) = Inr ?m"
    unfolding after_header_0_5_def by (rule run_connect_then_header [OF len parse_header_0_5])
  have ch: "mux_channels ?m 5
         = Some \<lparr>chan_id = 5, expected_peer_count = Size group3, completions_received = 1,
                 target_chain = Some 5\<rparr>"
    by (simp add: after_header_0_5_def after_first_header_def wide_ids)
  have g: "mux_group ?m = Some group3"
    by (simp add: after_header_0_5_def after_first_header_def)
  have has: "HasChannel ?m 4294967301"
    using ch by (simp add: HasChannel_def wide_ids)
  have op: "OpenChannel ?m 4294967301
              = Inr (OpenChannel_loop ?m group3 4294967301 [0..<Size group3] [], ?m)"
    using g by (simp add: OpenChannel_def)
  have own: "OpenChannel_loop ?m group3 4294967301 [0..<Size group3] [] ! MyRank group3
         = BlockEmitter (LoopbackTarget (Chain (mux_chains ?m) 4294967301)
                           (CloseLoopbackStream_bound 4294967301))"
    by (simp add: OpenChannel_loop_eq MyRank_def Size_def group3_def)
  have none: "Chain (mux_chains ?m) 4294967301 = None"
    by (simp add: after_header_0_5_def after_first_header_def wide_ids Chain_def Contains_def)
  let ?m' = "?m\<lparr>mux_channels := (mux_channels ?m)
       (5 \<mapsto> \<lparr>chan_id = 5, expected_peer_count = Size group3, completions_received = 2,
              target_chain = Some 5\<rparr>)\<rparr>"
  have "GetOrCreateChannel (int_of_ChannelId (4294967301 :: 64 word)) ?m
          = Inr (int_of_ChannelId (4294967301 :: 64 word), ?m)"
    by (rule GetOrCreateChannel_found [OF has])
  then have goc: "GetOrCreateChannel 5 ?m = Inr (5, ?m)"
    by (simp add: wide_ids)
  have cl: "invoke_closer (CloseLoopbackStream_bound 4294967301) ?m = Inr ?m'"
    by (simp add: CloseLoopbackStream_def wide_ids goc CloseLoopback_eq [OF ch] numeral_2_eq_2)
  have after: "mux_channels ?m' 5
         = Some \<lparr>chan_id = 5, expected_peer_count = Size group3, completions_received = 2,
                 target_chain = Some 5\<rparr>"
    by simp
  have d: "dom (mux_channels ?m') = {5}"
    by (simp add: after_header_0_5_def after_first_header_def wide_ids)
  have nodata: "\<not> HasDataOn ?m' 4294967301"
    by (simp add: after_header_0_5_def after_first_header_def wide_ids HasDataOn_def Contains_def)
  from r ch op own none cl after d nodata show ?thesis by blast
qed

subsection \<open>Instances\<close>

lemma run_first_header_0_5:
  "run layout64 [Call_Connect (Some group3), Read_completed 0 header_0_5] (ChannelMultiplexer_new [])
     = Inr (after_first_header \<lparr>expected_bytes = 0, channel_id = 5\<rparr>)"
proof -
  have len: "length header_0_5 = 16" by (simp add: header_0_5_def)
  show ?thesis by (rule run_connect_then_header [OF len parse_header_0_5])
qed

lemma fits_int_small: "fits_int (5 :: 64 word)" "fits_int (6 :: 64 word)" "fits_int (7 :: 64 word)"
  by (simp_all add: fits_int_def via_int_def int_of_ChannelId_def ChannelId_of_int_def)

theorem channel_has_chain_when_id_fits_int_witness:
  "run layout64 [Call_Connect (Some group3), Read_completed 0 header_0_5] (ChannelMultiplexer_new [])
     = Inr (after_first_header \<lparr>expected_bytes = 0, channel_id = 5\<rparr>)
   \<and> fits_int (5 :: 64 word)
   \<and> HasChannel (after_first_header \<lparr>expected_bytes = 0, channel_id = 5\<rparr>) 5
   \<and> HasDataOn (after_first_header \<lparr>expected_bytes = 0, channel_id = 5\<rparr>) 5"
proof -
  have h: "HasChannel (after_first_header \<lparr>expected_bytes = 0, channel_id = 5\<rparr>) 5"
    by (simp add: after_first_header_def HasChannel_def wide_ids)
  from channel_has_chain_when_id_fits_int [OF run_first_header_0_5 fits_int_small(1) h]
    run_first_header_0_5 fits_int_small(1) h
  show ?thesis by blast
qed

theorem registry_backed_step_witness:
  "registry_backed connected3
   \<and> step layout64 (Loopback_closed 7) connected3
       = Inr (connected3\<lparr>mux_chains := Allocate (mux_chains connected3) 7,
                mux_channels := [7 \<mapsto> \<lparr>chan_id = 7, expected_peer_count = Size group3,
                                  completions_received = 1, target_chain = Some 7\<rparr>]\<rparr>)
   \<and> registry_backed (connected3\<lparr>mux_chains := Allocate (mux_chains connected3) 7,
                mux_channels := [7 \<mapsto> \<lparr>chan_id = 7, expected_peer_count = Size group3,
                                  completions_received = 1, target_chain = Some 7\<rparr>]\<rparr>)"
proof -
  have rb: "registry_backed connected3"
    by (simp add: registry_backed_def connected3_eq)
  have no: "\<not> HasChannel connected3 7"
    by (simp add: HasChannel_def connected3_eq)
  have g: "mux_group connected3 = Some group3"
    by (simp add: connected3_eq)
  have st: "step layout64 (Loopback_closed 7) connected3
       = Inr (connected3\<lparr>mux_chains := Allocate (mux_chains connected3) 7,
                mux_channels := [7 \<mapsto> \<lparr>chan_id = 7, expected_peer_count = Size group3,
                                  completions_received = 1, target_chain = Some 7\<rparr>]\<rparr>)"
    by (simp add: CloseLoopbackStream_def GetOrCreateChannel_created [OF no g] CloseLoopback_eq)
      (simp add: connected3_eq Contains_def BufferChainManager_new_def wide_ids)
  from registry_backed_step [OF rb st] rb st show ?thesis by blast
qed

theorem unnamed_id_has_nothing_when_ids_fit_int_witness:
  "run layout64 [Call_Connect (Some group3), Read_completed 0 header_0_5] (ChannelMultiplexer_new [])
     = Inr (after_first_header \<lparr>expected_bytes = 0, channel_id = 5\<rparr>)
   \<and> concat (map (named_ids layout64) [Call_Connect (Some group3), Read_completed 0 header_0_5]) = [5]
   \<and> allocated_ids layout64 [Call_Connect (Some group3), Read_completed 0 header_0_5]
        (ChannelMultiplexer_new []) = []
   \<and> fits_int (5 :: 64 word) \<and> fits_int (6 :: 64 word)
   \<and> \<not> HasChannel (after_first_header \<lparr>expected_bytes = 0, channel_id = 5\<rparr>) 6
   \<and> \<not> HasDataOn (after_first_header \<lparr>expected_bytes = 0, channel_id = 5\<rparr>) 6"
proof -
  let ?xs = "[Call_Connect (Some group3), Read_completed 0 header_0_5]"
  have len: "length header_0_5 = 16" by (simp add: header_0_5_def)
  have n: "concat (map (named_ids layout64) ?xs) = [5]"
    by (simp add: parse_header_0_5)
  have a: "allocated_ids layout64 ?xs (ChannelMultiplexer_new []) = []"
    by (simp add: Connect_group3 Dispatch_connected3 [OF len parse_header_0_5])
  have f: "\<forall>j \<in> set (concat (map (named_ids layout64) ?xs)). fits_int j"
    unfolding n using fits_int_small(1) by simp
  have i: "6 \<notin> set (concat (map (named_ids layout64) ?xs))"
    unfolding n by simp
  have j: "6 \<notin> set (allocated_ids layout64 ?xs (ChannelMultiplexer_new []))"
    unfolding a by simp
  from unnamed_id_has_nothing_when_ids_fit_int [OF run_first_header_0_5 f fits_int_small(2) i j]
    run_first_header_0_5 n a fits_int_small
  show ?thesis by blast
qed

theorem allocated_ids_strictly_increasing_witness:
  "unat (next_id (mux_chains connected3))
     + length (allocated_ids layout64 [Call_AllocateNext, Call_OpenChannel 0, Call_AllocateNext] connected3)
     \<le> 2 ^ LENGTH(64)
   \<and> allocated_ids layout64 [Call_AllocateNext, Call_OpenChannel 0, Call_AllocateNext] connected3 = [0, 1]
   \<and> sorted_wrt (<) (allocated_ids layout64 [Call_AllocateNext, Call_OpenChannel 0, Call_AllocateNext] connected3)
   \<and> distinct (allocated_ids layout64 [Call_AllocateNext, Call_OpenChannel 0, Call_AllocateNext] connected3)"
proof -
  let ?xs = "[Call_AllocateNext, Call_OpenChannel 0, Call_AllocateNext]"
  have a: "allocated_ids layout64 ?xs connected3 = [0, 1]"
    by (simp add: AllocateNext_eq OpenChannel_def connected3_eq BufferChainManager_new_def)
  have b: "unat (next_id (mux_chains connected3)) + length (allocated_ids layout64 ?xs connected3)
             \<le> 2 ^ LENGTH(64)"
    unfolding a by (simp add: connected3_eq BufferChainManager_new_def)
  from allocated_ids_strictly_increasing [OF b] a b show ?thesis by blast
qed

theorem header_read_completion_when_id_fits_int_witness:
  "run layout64 [Call_Connect (Some group3)] (ChannelMultiplexer_new []) = Inr connected3
   \<and> mux_group connected3 = Some group3
   \<and> ParseHeader layout64 header_0_5 = \<lparr>expected_bytes = 0, channel_id = 5\<rparr>
   \<and> fits_int (channel_id \<lparr>expected_bytes = 0, channel_id = 5 :: 64 word\<rparr>)
   \<and> \<not> HasChannel connected3 5
   \<and> (\<exists>m' ch. ReadFirstHeaderPartFrom layout64 (NetConnection 11) header_0_5 connected3 = Inr m'
         \<and> HasChannel m' 5 \<and> HasDataOn m' 5
         \<and> mux_channels m' (int_of_ChannelId (5 :: 64 word)) = Some ch
         \<and> expected_peer_count ch = Size group3)"
proof -
  have r: "run layout64 [Call_Connect (Some group3)] (ChannelMultiplexer_new []) = Inr connected3"
    by (simp add: Connect_group3)
  have g: "mux_group connected3 = Some group3"
    by (simp add: connected3_eq)
  have f: "fits_int (channel_id \<lparr>expected_bytes = 0, channel_id = 5 :: 64 word\<rparr>)"
    by (simp add: fits_int_small)
  have no: "\<not> HasChannel connected3 5"
    by (simp add: HasChannel_def connected3_eq)
  from header_read_completion_when_id_fits_int
    [OF r g parse_header_0_5 f, where s = "NetConnection 11"] no
  have "\<exists>m' ch. ReadFirstHeaderPartFrom layout64 (NetConnection 11) header_0_5 connected3 = Inr m'
         \<and> HasChannel m' 5 \<and> HasDataOn m' 5
         \<and> mux_channels m' (int_of_ChannelId (5 :: 64 word)) = Some ch
         \<and> expected_peer_count ch = Size group3"
    by (simp del: One_nat_def) blast
  with r g parse_header_0_5 f no show ?thesis by blast
qed

theorem fits_int_narrow_witness:
  "LENGTH(32) \<le> 32 \<and> fits_int (4294967295 :: 32 word)"
proof -
  have l: "LENGTH(32) \<le> 32" by simp
  from fits_int_narrow [OF l, of 4294967295] l show ?thesis by blast
qed

theorem closer_closes_the_channel_of_the_id_when_it_fits_int_witness:
  "run layout64 [Call_Connect (Some group3), Read_completed 0 header_0_5]
       (ChannelMultiplexer_new []) = Inr after_header_0_5
   \<and> mux_group after_header_0_5 = Some group3
   \<and> fits_int (5 :: 64 word)
   \<and> (\<exists>emitters. OpenChannel after_header_0_5 5 = Inr (emitters, after_header_0_5)
         \<and> emitters ! MyRank group3
             = BlockEmitter (LoopbackTarget (Some 5) (CloseLoopbackStream_bound 5)))
   \<and> (\<exists>m' ch. invoke_closer (CloseLoopbackStream_bound 5) after_header_0_5 = Inr m'
         \<and> mux_channels m' 5 = Some ch
         \<and> ChannelId_of_int (chan_id ch) = (5 :: 64 word)
         \<and> target_chain ch = Some 5
         \<and> HasDataOn m' 5
         \<and> completions_received ch = 2)"
proof -
  let ?m = after_header_0_5
  have r: "run layout64 [Call_Connect (Some group3), Read_completed 0 header_0_5]
              (ChannelMultiplexer_new []) = Inr ?m"
    unfolding after_header_0_5_def by (rule run_first_header_0_5)
  have g: "mux_group ?m = Some group3"
    by (simp add: after_header_0_5_def after_first_header_def)
  have k: "int_of_ChannelId (5 :: 64 word) = 5"
    by (simp add: wide_ids)
  have before: "mux_channels ?m 5 = Some \<lparr>chan_id = 5, expected_peer_count = Size group3,
                     completions_received = 1, target_chain = Some 5\<rparr>"
    by (simp add: after_header_0_5_def after_first_header_def wide_ids)
  have op: "OpenChannel ?m 5 = Inr (OpenChannel_loop ?m group3 5 [0..<Size group3] [], ?m)"
    using g by (simp add: OpenChannel_def)
  have own: "OpenChannel_loop ?m group3 5 [0..<Size group3] [] ! MyRank group3
             = BlockEmitter (LoopbackTarget (Some 5) (CloseLoopbackStream_bound 5))"
    by (simp add: OpenChannel_loop_eq MyRank_def Size_def group3_def Chain_def Contains_def
        after_header_0_5_def after_first_header_def wide_ids)
  from closer_closes_the_channel_of_the_id_when_it_fits_int [OF r g fits_int_small(1)]
  obtain m' ch where c:
    "invoke_closer (CloseLoopbackStream_bound 5) ?m = Inr m'"
    "mux_channels m' (int_of_ChannelId (5 :: 64 word)) = Some ch"
    "ChannelId_of_int (chan_id ch) = (5 :: 64 word)"
    "target_chain ch = Some 5"
    "HasDataOn m' 5"
    "completions_received ch =
       (case mux_channels ?m (int_of_ChannelId (5 :: 64 word)) of
          None \<Rightarrow> 0 | Some c \<Rightarrow> completions_received c) + 1"
    by (elim exE conjE) (rule that, assumption+)
  from c(2) k have c2: "mux_channels m' 5 = Some ch" by simp
  from c(6) k before have c6: "completions_received ch = 2" by simp
  from r g fits_int_small(1) op own c(1) c2 c(3,4,5) c6 show ?thesis by blast
qed

end
